theory Spec2Isabelle
  imports Main "HOL-Library.Sublist"
begin

section \<open>Values of the Go program\<close>

text \<open>
  The service is one Go file, \<^verbatim>\<open>main.go\<close>: \<^verbatim>\<open>main\<close>, \<^verbatim>\<open>initDatabase\<close>,
  \<^verbatim>\<open>parseFlags\<close> and the flag record \<^verbatim>\<open>cliFlags\<close>. Everything else it calls lives in
  packages that are not part of the file. Calls into those packages are modelled as
  events of a trace, their results are read from an environment record, and the few
  packages whose behaviour a property depends on are modelled from the specification
  (each such definition says so).

  A Go \<^verbatim>\<open>error\<close> is an interface value; \<^verbatim>\<open>nil\<close> is \<open>None\<close>. The program compares
  an error with the sentinel \<^verbatim>\<open>http.ErrServerClosed\<close>, so the sentinel is a
  constructor of its own.
\<close>

datatype go_error =
    ErrServerClosed
  | ConnectionError string
  | MigrationError string
  | OtherError string

text \<open>The four signals \<^verbatim>\<open>main\<close> names (lines 71 and 72).\<close>

datatype signal = SIGHUP | SIGINT | SIGPIPE | SIGTERM

text \<open>HTTP status codes and methods used by \<^verbatim>\<open>main\<close>, as \<^verbatim>\<open>net/http\<close> defines them.\<close>

definition StatusOK :: nat where
  "StatusOK = 200"

definition StatusInternalServerError :: nat where
  "StatusInternalServerError = 500"

definition StatusServiceUnavailable :: nat where
  "StatusServiceUnavailable = 503"

definition MethodGet :: string where
  "MethodGet = ''GET''"

definition MethodPost :: string where
  "MethodPost = ''POST''"

definition MethodPut :: string where
  "MethodPut = ''PUT''"

definition MethodDelete :: string where
  "MethodDelete = ''DELETE''"


section \<open>Configuration: \<^verbatim>\<open>cliFlags\<close> (lines 111 to 134)\<close>

record http_flags =
  Addr :: string
  AllowedOrigins :: "string list"
  AllowedHeaders :: "string list"
  ExposedHeaders :: "string list"

record postgres_flags =
  URL :: string
  MaxConnLifetimeSec :: int
  MaxIdleConns :: int
  MaxOpenConns :: int

record log_flags =
  Level :: string
  Format :: string

record cliFlags =
  DocsPath :: string
  HTTP :: http_flags
  Postgres :: postgres_flags
  Log :: log_flags
  Version :: bool

text \<open>\<^verbatim>\<open>postgres.Config\<close>, as \<^verbatim>\<open>main\<close> fills it (lines 33 to 37).\<close>

record postgres_Config =
  cfg_MaxConnLifetime :: int
  cfg_MaxOpenConns :: int
  cfg_MaxIdleConns :: int

text \<open>\<^verbatim>\<open>cors.Options\<close>, the fields \<^verbatim>\<open>main\<close> sets (lines 45 to 51).\<close>

record cors_Options =
  opt_AllowedOrigins :: "string list"
  opt_AllowedHeaders :: "string list"
  opt_ExposedHeaders :: "string list"
  opt_AllowedMethods :: "string list"
  opt_AllowCredentials :: bool

definition main_cors_options :: "cliFlags \<Rightarrow> cors_Options" where
  "main_cors_options cfg =
     \<lparr> opt_AllowedOrigins = AllowedOrigins (HTTP cfg),
       opt_AllowedHeaders = AllowedHeaders (HTTP cfg),
       opt_ExposedHeaders = ExposedHeaders (HTTP cfg),
       opt_AllowedMethods = [MethodGet, MethodPut, MethodDelete],
       opt_AllowCredentials = True \<rparr>"

definition main_postgres_config :: "cliFlags \<Rightarrow> postgres_Config" where
  "main_postgres_config cfg =
     \<lparr> cfg_MaxConnLifetime = MaxConnLifetimeSec (Postgres cfg),
       cfg_MaxOpenConns = MaxOpenConns (Postgres cfg),
       cfg_MaxIdleConns = MaxIdleConns (Postgres cfg) \<rparr>"


section \<open>The migration runner\<close>

text \<open>
  \<^verbatim>\<open>initDatabase\<close> hands the migrations of the article package to \<^verbatim>\<open>db.Migrate\<close>
  (line 105) and returns its error unchanged. The runner itself is in the postgres
  package and is not part of \<^verbatim>\<open>main.go\<close>.

  A migration is an id and an apply procedure on the store's data; the procedure may
  fail (\<open>None\<close>). The store holds the ledger next to the data.
\<close>

record 'd migration =
  mig_id :: string
  applyFn :: "'d \<Rightarrow> 'd option"

record ledger_entry =
  entry_id :: string
  appliedAt :: nat

record 'd store =
  ledger :: "ledger_entry list"
  contents :: 'd

definition ledger_ids :: "'d store \<Rightarrow> string list" where
  "ledger_ids st = map entry_id (ledger st)"

text \<open>
  Modelled from the spec: the loop of the migration runner (postgres package, section
  4.2 of the specification). The ledger is read once (\<open>seen\<close>); each migration in
  declared order whose id is absent from it is executed and, in the same unit of work,
  a ledger entry is appended; the first failing migration stops the run with
  \<open>MigrationError\<close> carrying its id and leaves the store as it was before that
  migration. \<open>n\<close> counts the migrations applied so far.
\<close>

fun migrate_loop ::
  "nat \<Rightarrow> string list \<Rightarrow> 'd migration list \<Rightarrow> 'd store \<Rightarrow> nat \<Rightarrow> (go_error + nat) \<times> 'd store"
where
  "migrate_loop now seen [] st n = (Inr n, st)"
| "migrate_loop now seen (m # ms) st n =
     (if mig_id m \<in> set seen then migrate_loop now seen ms st n
      else
        (case applyFn m (contents st) of
           None \<Rightarrow> (Inl (MigrationError (mig_id m)), st)
         | Some d \<Rightarrow>
             migrate_loop now seen ms
               (st\<lparr> contents := d,
                    ledger := ledger st @ [\<lparr> entry_id = mig_id m, appliedAt = now \<rparr>] \<rparr>)
               (Suc n)))"

text \<open>
  Modelled from the spec: \<open>migrate(handle, orderedMigrations)\<close> returns the applied
  count or a \<open>MigrationError\<close> (section 4.2). \<open>now\<close> is the time stamp of the run.
\<close>

definition migrate ::
  "nat \<Rightarrow> 'd store \<Rightarrow> 'd migration list \<Rightarrow> (go_error + nat) \<times> 'd store"
where
  "migrate now st ms = migrate_loop now (ledger_ids st) ms st 0"


text \<open>
  Modelled from the spec: \<^verbatim>\<open>db.Migrate\<close> of the postgres package, which \<^verbatim>\<open>initDatabase\<close>
  calls on line 105. It runs the migration runner and returns its error, \<^verbatim>\<open>nil\<close>
  when every migration went through.
\<close>

definition db_Migrate ::
  "nat \<Rightarrow> 'd store \<Rightarrow> 'd migration list \<Rightarrow> go_error option \<times> 'd store"
where
  "db_Migrate now st ms =
     (case migrate now st ms of
        (Inl e, st') \<Rightarrow> (Some e, st')
      | (Inr n, st') \<Rightarrow> (None, st'))"


section \<open>Events and the state of the process\<close>

text \<open>The stages \<^verbatim>\<open>main\<close> hands to \<^verbatim>\<open>r.Use\<close> (lines 54 to 60).\<close>

datatype stage = RequestID | RealIP | RequestLogger | Recoverer | CorsHandler cors_Options

definition main_middlewares :: "cliFlags \<Rightarrow> stage list" where
  "main_middlewares cfg =
     [RequestID, RealIP, RequestLogger, Recoverer, CorsHandler (main_cors_options cfg)]"

text \<open>
  An event is one call that \<^verbatim>\<open>main.go\<close> makes into another package, or one
  observation of the running service. The trace of a process lists them in the order
  in which they happen. The calls that only build the arguments of the router
  (\<^verbatim>\<open>health.Routes\<close>, \<^verbatim>\<open>article.Routes\<close>, \<^verbatim>\<open>handler.ApiVersion\<close>, \<^verbatim>\<open>http.Dir\<close>) are
  part of the router event they belong to.
\<close>

datatype event =
    ParseFlags
  | Stdout string
  | Stderr string
  | LogNew string string
  | LogInfo string
  | LogError string go_error
  | LogFatal go_error
  | ArticleMigrations
  | PostgresNew string postgres_Config
  | DbConnect
  | DbMigrate "string list"
  | DbClose
  | ArticleNewManager
  | CorsNew cors_Options
  | ChiNewRouter
  | RouterUse "stage list"
  | RouterMount string
  | RouterRoute string
  | FileServer string string
  | SignalIgnore "signal list"
  | SignalNotify "signal list"
  | GoCoordinator
  | ListenAndServe string
  | SetReadinessStatus nat
  | SrvShutdown
  | ReadinessProbe nat

text \<open>
  How a process ends: \<^verbatim>\<open>os.Exit\<close> with a code, a run-time panic, or the default action
  of a signal that is neither ignored nor relayed.
\<close>

datatype proc_status = Running | Exited nat | Panicked | Killed signal

text \<open>
  The main goroutine from line 85 on, one position per statement. \<open>Listening\<close> is
  the main goroutine blocked inside \<^verbatim>\<open>srv.ListenAndServe\<close>; \<open>Checking err\<close> holds the
  error it returned; \<open>Returning\<close> is the end of \<^verbatim>\<open>main\<close>, where the deferred
  \<^verbatim>\<open>db.Close\<close> runs; \<open>Exiting\<close> is the return of \<^verbatim>\<open>main\<close>, which ends the process.
\<close>

datatype main_pc =
    Bootstrapping
  | AtLogStarting
  | AtLogListening
  | AtListen
  | Listening
  | Checking "go_error option"
  | Returning
  | Exiting

text \<open>
  The goroutine of lines 73 to 83, one position per statement. \<open>Armed\<close> is blocked on
  the receive from \<^verbatim>\<open>sigquit\<close> (line 74), \<open>Triggered s\<close> has received \<open>s\<close>,
  \<open>Draining\<close> is inside \<^verbatim>\<open>srv.Shutdown\<close> (line 80).
\<close>

datatype coord_pc =
    NotSpawned
  | Armed
  | Triggered signal
  | AtSetReadiness
  | AtLogShutdown
  | AtShutdown
  | Draining
  | AtLogDrainError go_error
  | Done

record proc =
  events :: "event list"
  status :: proc_status
  readiness :: nat
  ignored :: "signal list"
  notified :: "signal list"
  sigquit :: "signal list"
  mpc :: main_pc
  gpc :: coord_pc

text \<open>
  The environment: what the calls that leave \<^verbatim>\<open>main.go\<close> answer. Each of these calls
  is made at most once in a run, so one answer per call is enough.
\<close>

datatype flags_ErrorType = ErrHelp | ErrOtherType

datatype parse_error = FlagsError flags_ErrorType string | ForeignError string

record 'd env =
  parse_result :: "parse_error option"
  env_flags :: cliFlags
  env_version :: string
  new_result :: "go_error option"
  connect_result :: "go_error option"
  article_migrations :: "'d migration list"
  db_store :: "'d store"
  db_clock :: nat
  listen_result :: "go_error option"
  shutdown_result :: "go_error option"

definition emit :: "event list \<Rightarrow> proc \<Rightarrow> proc" where
  "emit es s = s\<lparr> events := events s @ es \<rparr>"

definition os_Exit :: "nat \<Rightarrow> proc \<Rightarrow> proc" where
  "os_Exit code s = s\<lparr> status := Exited code \<rparr>"

text \<open>
  Modelled from the spec: the readiness cell of the health package starts as OK
  (section 3, ReadinessStatus).
\<close>

definition health_initial_status :: nat where
  "health_initial_status = StatusOK"

text \<open>
  Modelled from the spec: \<^verbatim>\<open>health.SetReadinessStatus\<close> stores its argument in the
  process-wide readiness cell (section 4.4).
\<close>

definition health_SetReadinessStatus :: "nat \<Rightarrow> proc \<Rightarrow> proc" where
  "health_SetReadinessStatus v s = (emit [SetReadinessStatus v] s)\<lparr> readiness := v \<rparr>"

text \<open>
  Modelled from the spec: \<^verbatim>\<open>Fatal\<close> of the log package writes the entry and ends the
  process with a non-zero exit status (section 7).
\<close>

definition logger_Fatal :: "go_error \<Rightarrow> proc \<Rightarrow> proc" where
  "logger_Fatal e s = os_Exit 1 (emit [LogFatal e] s)"

text \<open>
  Go's \<^verbatim>\<open>os/signal\<close>: \<^verbatim>\<open>Ignore\<close> makes the signals ignored and undoes an earlier
  \<^verbatim>\<open>Notify\<close> for them; \<^verbatim>\<open>Notify\<close> relays the signals to the channel and undoes an
  earlier \<^verbatim>\<open>Ignore\<close>.
\<close>

definition signal_Ignore :: "signal list \<Rightarrow> proc \<Rightarrow> proc" where
  "signal_Ignore sigs s =
     (emit [SignalIgnore sigs] s)
       \<lparr> ignored := ignored s @ sigs,
         notified := filter (\<lambda>x. x \<notin> set sigs) (notified s) \<rparr>"

definition signal_Notify :: "signal list \<Rightarrow> proc \<Rightarrow> proc" where
  "signal_Notify sigs s =
     (emit [SignalNotify sigs] s)
       \<lparr> notified := notified s @ sigs,
         ignored := filter (\<lambda>x. x \<notin> set sigs) (ignored s) \<rparr>"

definition init_proc :: proc where
  "init_proc =
     \<lparr> events = [], status = Running, readiness = health_initial_status,
       ignored = [], notified = [], sigquit = [],
       mpc = Bootstrapping, gpc = NotSpawned \<rparr>"


section \<open>\<^verbatim>\<open>parseFlags\<close> (lines 136 to 152)\<close>

text \<open>
  A parse error that is a \<^verbatim>\<open>*flags.Error\<close> of type \<^verbatim>\<open>ErrHelp\<close> exits with 0; any other
  \<^verbatim>\<open>*flags.Error\<close> is printed and exits with 1. For an error of another type the
  assertion fails, \<^verbatim>\<open>flagsErr\<close> is a nil pointer and \<^verbatim>\<open>flagsErr.Error()\<close> panics.
\<close>

definition parseFlags :: "'d env \<Rightarrow> proc \<Rightarrow> proc" where
  "parseFlags env s =
     (let s1 = emit [ParseFlags] s in
      case parse_result env of
        Some (FlagsError t msg) \<Rightarrow>
          if t = ErrHelp then os_Exit 0 s1 else os_Exit 1 (emit [Stderr msg] s1)
      | Some (ForeignError msg) \<Rightarrow> s1\<lparr> status := Panicked \<rparr>
      | None \<Rightarrow>
          if Version (env_flags env) then os_Exit 0 (emit [Stdout (env_version env)] s1)
          else s1)"


section \<open>\<^verbatim>\<open>initDatabase\<close> (lines 92 to 109)\<close>

definition initDatabase ::
  "'d env \<Rightarrow> string \<Rightarrow> postgres_Config \<Rightarrow> proc \<Rightarrow> proc \<times> (go_error + 'd store)"
where
  "initDatabase env dsn pcfg s =
     (let s0 = emit [ArticleMigrations] s;
          migrations = [] @ article_migrations env;
          s1 = emit [PostgresNew dsn pcfg] s0
      in case new_result env of
           Some e \<Rightarrow> (s1, Inl e)
         | None \<Rightarrow>
             (let s2 = emit [DbConnect] s1
              in case connect_result env of
                   Some e \<Rightarrow> (s2, Inl e)
                 | None \<Rightarrow>
                     (let s3 = emit [DbMigrate (map mig_id migrations)] s2
                      in case db_Migrate (db_clock env) (db_store env) migrations of
                           (Some e, st) \<Rightarrow> (s3, Inl e)
                         | (None, st) \<Rightarrow> (s3, Inr st))))"


section \<open>\<^verbatim>\<open>main\<close> (lines 28 to 90)\<close>

text \<open>
  Lines 29 to 73 run before the second goroutine exists, so they are a function: from
  the environment to the state in which the goroutine has just been started, or to
  the state in which the process has ended.
\<close>

definition main_bootstrap :: "'d env \<Rightarrow> proc" where
  "main_bootstrap env =
     (let s1 = parseFlags env init_proc
      in if status s1 \<noteq> Running then s1
         else
           (let cfg = env_flags env;
                s2 = emit [LogNew (Format (Log cfg)) (Level (Log cfg)),
                           LogInfo ''started with config: %+v''] s1;
                pcfg = main_postgres_config cfg;
                (s3, db) = initDatabase env (URL (Postgres cfg)) pcfg s2
            in case db of
                 Inl err \<Rightarrow> logger_Fatal err s3
               | Inr st \<Rightarrow>
                   (let s4 = emit [ArticleNewManager] s3;
                        s5 = emit [CorsNew (main_cors_options cfg)] s4;
                        s6 = emit [ChiNewRouter,
                                   RouterUse (main_middlewares cfg),
                                   RouterMount ''/readiness'',
                                   RouterRoute ''/1.0'',
                                   FileServer ''/docs'' (DocsPath cfg)] s5;
                        s7 = signal_Ignore [SIGHUP, SIGPIPE] s6;
                        s8 = signal_Notify [SIGINT, SIGTERM] s7;
                        s9 = emit [GoCoordinator] s8
                    in s9\<lparr> mpc := AtLogStarting, gpc := Armed \<rparr>)))"

text \<open>
  From line 85 on the main goroutine and the goroutine of lines 73 to 83 run side by
  side. Each takes one statement per step. \<^verbatim>\<open>srv.ListenAndServe\<close> returns when the
  scheduler lets it, with the error the environment gives.
\<close>

definition main_step :: "'d env \<Rightarrow> proc \<Rightarrow> proc" where
  "main_step env s =
     (case mpc s of
        Bootstrapping \<Rightarrow> s
      | AtLogStarting \<Rightarrow>
          (emit [LogInfo ''starting http service...''] s)\<lparr> mpc := AtLogListening \<rparr>
      | AtLogListening \<Rightarrow>
          (emit [LogInfo ''listening on %s''] s)\<lparr> mpc := AtListen \<rparr>
      | AtListen \<Rightarrow>
          (emit [ListenAndServe (Addr (HTTP (env_flags env)))] s)\<lparr> mpc := Listening \<rparr>
      | Listening \<Rightarrow> s\<lparr> mpc := Checking (listen_result env) \<rparr>
      | Checking err \<Rightarrow>
          (case err of
             None \<Rightarrow> s\<lparr> mpc := Returning \<rparr>
           | Some e \<Rightarrow>
               if e \<noteq> ErrServerClosed
               then (emit [LogError ''server error'' e] s)\<lparr> mpc := Returning \<rparr>
               else s\<lparr> mpc := Returning \<rparr>)
      | Returning \<Rightarrow> (emit [DbClose] s)\<lparr> mpc := Exiting \<rparr>
      | Exiting \<Rightarrow> os_Exit 0 s)"

definition coord_step :: "'d env \<Rightarrow> proc \<Rightarrow> proc" where
  "coord_step env s =
     (case gpc s of
        NotSpawned \<Rightarrow> s
      | Armed \<Rightarrow>
          (case sigquit s of
             [] \<Rightarrow> s
           | sg # rest \<Rightarrow> s\<lparr> sigquit := rest, gpc := Triggered sg \<rparr>)
      | Triggered sg \<Rightarrow>
          (emit [LogInfo ''captured %v, exiting...''] s)\<lparr> gpc := AtSetReadiness \<rparr>
      | AtSetReadiness \<Rightarrow>
          (health_SetReadinessStatus StatusServiceUnavailable s)\<lparr> gpc := AtLogShutdown \<rparr>
      | AtLogShutdown \<Rightarrow>
          (emit [LogInfo ''gracefully shutdown server''] s)\<lparr> gpc := AtShutdown \<rparr>
      | AtShutdown \<Rightarrow> (emit [SrvShutdown] s)\<lparr> gpc := Draining \<rparr>
      | Draining \<Rightarrow>
          (case shutdown_result env of
             None \<Rightarrow> s\<lparr> gpc := Done \<rparr>
           | Some e \<Rightarrow> s\<lparr> gpc := AtLogDrainError e \<rparr>)
      | AtLogDrainError e \<Rightarrow>
          (emit [LogError ''could not shutdown server'' e] s)\<lparr> gpc := Done \<rparr>
      | Done \<Rightarrow> s)"

text \<open>
  A signal that reaches the process: relayed to \<^verbatim>\<open>sigquit\<close> when \<^verbatim>\<open>Notify\<close> names it
  (the send does not block: the channel holds one signal, line 70, and a signal that
  finds it full is dropped), dropped when it is ignored, and deadly otherwise.
\<close>

definition deliver :: "signal \<Rightarrow> proc \<Rightarrow> proc" where
  "deliver sg s =
     (if sg \<in> set (notified s)
      then (if length (sigquit s) < 1 then s\<lparr> sigquit := sigquit s @ [sg] \<rparr> else s)
      else if sg \<in> set (ignored s) then s
      else s\<lparr> status := Killed sg \<rparr>)"

definition listener_started :: "main_pc \<Rightarrow> bool" where
  "listener_started pc =
     (case pc of
        Bootstrapping \<Rightarrow> False
      | AtLogStarting \<Rightarrow> False
      | AtLogListening \<Rightarrow> False
      | AtListen \<Rightarrow> False
      | _ \<Rightarrow> True)"

text \<open>
  Modelled from the spec: the probe of the health package, mounted on
  \<^verbatim>\<open>/readiness\<close> (line 61), answers with the current ReadinessStatus (section 6). A
  request is answered only by a server whose listener has been started.
\<close>

definition probe :: "proc \<Rightarrow> proc" where
  "probe s = (if listener_started (mpc s) then emit [ReadinessProbe (readiness s)] s else s)"

text \<open>
  A schedule is the list of things that happen after line 73, in order: a step of the
  main goroutine, a step of the other goroutine, a signal, a probe. Nothing happens in
  a process that has ended: when \<^verbatim>\<open>main\<close> returns, the other goroutine ends with it.
  Signals that arrive before line 72 has run are not part of a schedule.
\<close>

datatype action = MainStep | CoordStep | Deliver signal | Probe

definition step :: "'d env \<Rightarrow> action \<Rightarrow> proc \<Rightarrow> proc" where
  "step env a s =
     (if status s \<noteq> Running then s
      else
        (case a of
           MainStep \<Rightarrow> main_step env s
         | CoordStep \<Rightarrow> coord_step env s
         | Deliver sg \<Rightarrow> deliver sg s
         | Probe \<Rightarrow> probe s))"

fun exec :: "'d env \<Rightarrow> proc \<Rightarrow> action list \<Rightarrow> proc" where
  "exec env s [] = s"
| "exec env s (a # sched) = exec env (step env a s) sched"

definition main :: "'d env \<Rightarrow> action list \<Rightarrow> proc" where
  "main env sched = exec env (main_bootstrap env) sched"


section \<open>The phases of the bootstrap\<close>

text \<open>
  The phases of the service bootstrap, in the order of the sequencing contract, and
  the phase each call of \<^verbatim>\<open>main.go\<close> belongs to. Log lines, the article manager and
  what happens while the service runs belong to no phase.
\<close>

datatype phase = Configuration | Connection | Migration | Pipeline | Coordinator | Listener

fun phase_of :: "event \<Rightarrow> phase option" where
  "phase_of ParseFlags = Some Configuration"
| "phase_of (PostgresNew dsn pcfg) = Some Connection"
| "phase_of DbConnect = Some Connection"
| "phase_of (DbMigrate ids) = Some Migration"
| "phase_of (CorsNew opts) = Some Pipeline"
| "phase_of ChiNewRouter = Some Pipeline"
| "phase_of (RouterUse stages) = Some Pipeline"
| "phase_of (RouterMount p) = Some Pipeline"
| "phase_of (RouterRoute p) = Some Pipeline"
| "phase_of (FileServer p d) = Some Pipeline"
| "phase_of (SignalIgnore sigs) = Some Coordinator"
| "phase_of (SignalNotify sigs) = Some Coordinator"
| "phase_of GoCoordinator = Some Coordinator"
| "phase_of (ListenAndServe a) = Some Listener"
| "phase_of e = None"

definition phases :: "event list \<Rightarrow> phase list" where
  "phases tr = remdups_adj (List.map_filter phase_of tr)"

definition bootstrap_order :: "phase list" where
  "bootstrap_order = [Configuration, Connection, Migration, Pipeline, Coordinator, Listener]"

text \<open>The error \<^verbatim>\<open>initDatabase\<close> returns to \<^verbatim>\<open>main\<close> on line 38, \<open>None\<close> for \<^verbatim>\<open>nil\<close>.\<close>

definition init_error :: "'d env \<Rightarrow> go_error option" where
  "init_error env =
     (case snd (initDatabase env (URL (Postgres (env_flags env)))
                  (main_postgres_config (env_flags env)) init_proc) of
        Inl e \<Rightarrow> Some e
      | Inr st \<Rightarrow> None)"

definition is_probe :: "event \<Rightarrow> bool" where
  "is_probe e = (case e of ReadinessProbe v \<Rightarrow> True | _ \<Rightarrow> False)"

definition is_readiness_write :: "event \<Rightarrow> bool" where
  "is_readiness_write e = (case e of SetReadinessStatus v \<Rightarrow> True | _ \<Rightarrow> False)"


text \<open>The value of the readiness cell after a trace: the last value written, OK if none.\<close>

definition readiness_after :: "event list \<Rightarrow> nat" where
  "readiness_after tr =
     foldl (\<lambda>v e. case e of SetReadinessStatus w \<Rightarrow> w | _ \<Rightarrow> v) health_initial_status tr"


section \<open>The middleware pipeline\<close>

text \<open>
  A request as the stages see it: the request line, the headers, the peer address and
  the request id that the context carries.
\<close>

record request =
  req_method :: string
  req_path :: string
  req_headers :: "(string \<times> string) list"
  req_remote_addr :: string
  req_id :: "string option"

text \<open>A handler answers with a status or panics.\<close>

datatype outcome = Responded nat | Panic string

datatype hop = Stage stage | Router

datatype hevent =
    Entered hop request
  | CorsDecision bool
  | Recovered string
  | LogEntry request nat

record hresult =
  trace :: "hevent list"
  outcome :: outcome

type_synonym handler = "request \<Rightarrow> hresult"

text \<open>
  What the stages compute is in packages outside \<^verbatim>\<open>main.go\<close> and is a parameter
  here: how a request id is assigned, how the client address is normalised, which
  origins and headers the cross-origin policy accepts, which requests it answers
  itself, and with which status.
\<close>

record stage_impl =
  assign_id :: "request \<Rightarrow> request"
  real_ip :: "request \<Rightarrow> request"
  origin_allowed :: "cors_Options \<Rightarrow> request \<Rightarrow> bool"
  headers_allowed :: "cors_Options \<Rightarrow> request \<Rightarrow> bool"
  is_preflight :: "request \<Rightarrow> bool"
  preflight_status :: nat

text \<open>
  Modelled from the spec: the method check of the cross-origin policy (section 4.3,
  item 4): a method is allowed when the options list it.
\<close>

definition isMethodAllowed :: "cors_Options \<Rightarrow> string \<Rightarrow> bool" where
  "isMethodAllowed opts m = (m \<in> set (opt_AllowedMethods opts))"

text \<open>
  The method a cross-origin request asks for: its own, or for a preflight the one
  named in \<^verbatim>\<open>Access-Control-Request-Method\<close>.
\<close>

definition cors_method :: "stage_impl \<Rightarrow> request \<Rightarrow> string" where
  "cors_method impl r =
     (if is_preflight impl r
      then (case map_of (req_headers r) ''Access-Control-Request-Method'' of
              Some m \<Rightarrow> m
            | None \<Rightarrow> [])
      else req_method r)"

text \<open>
  Modelled from the spec: the cross-origin policy allows a request based on origin,
  headers and method (section 4.3, item 4).
\<close>

definition cors_permits :: "stage_impl \<Rightarrow> cors_Options \<Rightarrow> request \<Rightarrow> bool" where
  "cors_permits impl opts r =
     (origin_allowed impl opts r
      \<and> isMethodAllowed opts (cors_method impl r)
      \<and> headers_allowed impl opts r)"

text \<open>
  Modelled from the spec: the five stages (section 4.3). Request-id assignment and
  client-address normalisation change the request and delegate. The logger delegates
  and records the request with the status of the response; a panic of the inner
  handler passes through it unrecorded. The recoverer turns a panic of the inner
  handler into a response with status 500. The cross-origin stage decides, answers a
  preflight itself and delegates everything else.
\<close>

fun apply_stage :: "stage_impl \<Rightarrow> stage \<Rightarrow> handler \<Rightarrow> handler" where
  "apply_stage impl RequestID next r =
     (let res = next (assign_id impl r)
      in res\<lparr> trace := Entered (Stage RequestID) r # trace res \<rparr>)"
| "apply_stage impl RealIP next r =
     (let res = next (real_ip impl r)
      in res\<lparr> trace := Entered (Stage RealIP) r # trace res \<rparr>)"
| "apply_stage impl RequestLogger next r =
     (let res = next r
      in case outcome res of
           Responded code \<Rightarrow>
             res\<lparr> trace := Entered (Stage RequestLogger) r # trace res @ [LogEntry r code] \<rparr>
         | Panic msg \<Rightarrow>
             res\<lparr> trace := Entered (Stage RequestLogger) r # trace res \<rparr>)"
| "apply_stage impl Recoverer next r =
     (let res = next r
      in case outcome res of
           Responded code \<Rightarrow>
             res\<lparr> trace := Entered (Stage Recoverer) r # trace res \<rparr>
         | Panic msg \<Rightarrow>
             \<lparr> trace = Entered (Stage Recoverer) r # trace res @ [Recovered msg],
               outcome = Responded StatusInternalServerError \<rparr>)"
| "apply_stage impl (CorsHandler opts) next r =
     (let granted = cors_permits impl opts r
      in if is_preflight impl r
         then \<lparr> trace = [Entered (Stage (CorsHandler opts)) r, CorsDecision granted],
                outcome = Responded (preflight_status impl) \<rparr>
         else
           (let res = next r
            in res\<lparr> trace :=
                 Entered (Stage (CorsHandler opts)) r # CorsDecision granted # trace res \<rparr>))"

text \<open>
  Modelled from the spec: the MiddlewareChain (section 3): insertion order is
  execution order, outermost first. The stages wrap the endpoint from the last to the
  first.
\<close>

definition chain :: "stage_impl \<Rightarrow> stage list \<Rightarrow> handler \<Rightarrow> handler" where
  "chain impl stages endpoint = foldr (apply_stage impl) stages endpoint"

text \<open>
  The router dispatches to the mounted route handlers (lines 61 to 67); what they
  answer is a parameter.
\<close>

definition router :: "(request \<Rightarrow> outcome) \<Rightarrow> handler" where
  "router routes r = \<lparr> trace = [Entered Router r], outcome = routes r \<rparr>"

text \<open>The handler \<^verbatim>\<open>main\<close> gives to the server (line 68).\<close>

definition main_handler :: "stage_impl \<Rightarrow> cliFlags \<Rightarrow> (request \<Rightarrow> outcome) \<Rightarrow> handler" where
  "main_handler impl cfg routes = chain impl (main_middlewares cfg) (router routes)"

definition hops :: "hevent list \<Rightarrow> hop list" where
  "hops tr = List.map_filter (\<lambda>e. case e of Entered h r \<Rightarrow> Some h | _ \<Rightarrow> None) tr"


section \<open>Traces, invariants and example inputs\<close>

text \<open>The trace of a bootstrap in which every call succeeds: lines 29 to 73 in order.\<close>

definition boot_events :: "'d env \<Rightarrow> event list" where
  "boot_events env =
     [ParseFlags,
      LogNew (Format (Log (env_flags env))) (Level (Log (env_flags env))),
      LogInfo ''started with config: %+v'',
      ArticleMigrations,
      PostgresNew (URL (Postgres (env_flags env))) (main_postgres_config (env_flags env)),
      DbConnect,
      DbMigrate (map mig_id (article_migrations env)),
      ArticleNewManager,
      CorsNew (main_cors_options (env_flags env)),
      ChiNewRouter,
      RouterUse (main_middlewares (env_flags env)),
      RouterMount ''/readiness'',
      RouterRoute ''/1.0'',
      FileServer ''/docs'' (DocsPath (env_flags env)),
      SignalIgnore [SIGHUP, SIGPIPE],
      SignalNotify [SIGINT, SIGTERM],
      GoCoordinator]"

text \<open>
  Two properties of a trace: every request to drain the server comes after the write
  of UNAVAILABLE to the readiness cell, and every probe answers with the value the
  cell holds at that point of the trace.
\<close>

definition drain_after_flip :: "event list \<Rightarrow> bool" where
  "drain_after_flip tr =
     (\<forall>pre post. tr = pre @ SrvShutdown # post
        \<longrightarrow> SetReadinessStatus StatusServiceUnavailable \<in> set pre)"

definition probes_read_cell :: "event list \<Rightarrow> bool" where
  "probes_read_cell tr =
     (\<forall>pre v post. tr = pre @ ReadinessProbe v # post \<longrightarrow> v = readiness_after pre)"

text \<open>The positions of the goroutine of lines 73 to 83 that lie after line 77.\<close>

definition flipped :: "coord_pc \<Rightarrow> bool" where
  "flipped g =
     (case g of
        NotSpawned \<Rightarrow> False
      | Armed \<Rightarrow> False
      | Triggered sg \<Rightarrow> False
      | AtSetReadiness \<Rightarrow> False
      | _ \<Rightarrow> True)"

text \<open>
  What holds in every state of a run: the cell holds the last value written, the two
  trace properties hold, and the trace has exactly one write to the cell once line 77
  has run and none, and no drain request, before.
\<close>

definition readiness_inv :: "proc \<Rightarrow> bool" where
  "readiness_inv s \<longleftrightarrow>
      readiness s = readiness_after (events s)
    \<and> drain_after_flip (events s)
    \<and> probes_read_cell (events s)
    \<and> (if flipped (gpc s)
       then filter is_readiness_write (events s) = [SetReadinessStatus StatusServiceUnavailable]
       else filter is_readiness_write (events s) = [] \<and> SrvShutdown \<notin> set (events s))"

text \<open>A configuration and an environment to run the model on.\<close>

definition example_flags :: cliFlags where
  "example_flags =
     \<lparr> DocsPath = ''docs'',
       HTTP = \<lparr> Addr = ''localhost:5000'', AllowedOrigins = [''https://example.org''],
                AllowedHeaders = [], ExposedHeaders = [] \<rparr>,
       Postgres = \<lparr> URL = ''postgres://127.0.0.1:5432/postgres'', MaxConnLifetimeSec = 60,
                    MaxIdleConns = 1, MaxOpenConns = 1 \<rparr>,
       Log = \<lparr> Level = ''info'', Format = ''text'' \<rparr>,
       Version = False \<rparr>"

definition example_env :: "nat env" where
  "example_env =
     \<lparr> parse_result = None,
       env_flags = example_flags,
       env_version = ''1.0'',
       new_result = None,
       connect_result = None,
       article_migrations = [\<lparr> mig_id = ''001'', applyFn = (\<lambda>d. Some (Suc d)) \<rparr>],
       db_store = \<lparr> ledger = [], contents = 0 \<rparr>,
       db_clock = 7,
       listen_result = Some ErrServerClosed,
       shutdown_result = None \<rparr>"

text \<open>
  What holds of the main goroutine in every state of a run: the error it checks on
  line 87 is the one \<^verbatim>\<open>srv.ListenAndServe\<close> returned, and the trace has the entry
  \<open>server error\<close> exactly when line 87 has been passed with an error that is not
  \<^verbatim>\<open>http.ErrServerClosed\<close>.
\<close>

definition server_inv :: "'d env \<Rightarrow> proc \<Rightarrow> bool" where
  "server_inv env s \<longleftrightarrow>
      (\<forall>err. mpc s = Checking err \<longrightarrow> err = listen_result env)
    \<and> (\<forall>e. LogError ''server error'' e \<in> set (events s) \<longleftrightarrow>
             (mpc s = Returning \<or> mpc s = Exiting)
             \<and> listen_result env = Some e \<and> e \<noteq> ErrServerClosed)"

text \<open>
  What holds of the signal handling in every state of a run whose bootstrap went
  through: the dispositions are the ones lines 71 and 72 install, the channel holds at
  most signals that are relayed, and the goroutine was triggered, if at all, by one of
  them.
\<close>

definition signal_inv :: "proc \<Rightarrow> bool" where
  "signal_inv s \<longleftrightarrow>
      ignored s = [SIGHUP, SIGPIPE]
    \<and> notified s = [SIGINT, SIGTERM]
    \<and> set (sigquit s) \<subseteq> {SIGINT, SIGTERM}
    \<and> (\<forall>sg. gpc s = Triggered sg \<longrightarrow> sg = SIGINT \<or> sg = SIGTERM)
    \<and> (\<forall>k. status s \<noteq> Killed k)
    \<and> gpc s \<noteq> NotSpawned"

text \<open>The goroutine still waits, and no signal waits for it.\<close>

definition waiting :: "proc \<Rightarrow> bool" where
  "waiting s \<longleftrightarrow> gpc s = Armed \<and> sigquit s = []"





text \<open>
  The process is running, or it has ended with status 0 by the return of \<^verbatim>\<open>main\<close>.
\<close>

definition exit_inv :: "proc \<Rightarrow> bool" where
  "exit_inv s \<longleftrightarrow> status s = Running \<or> (status s = Exited 0 \<and> mpc s = Exiting)"

text \<open>Stage parameters and a request to run the pipeline on.\<close>

definition example_impl :: stage_impl where
  "example_impl =
     \<lparr> assign_id = (\<lambda>r. r\<lparr> req_id := Some ''host/1-000001'' \<rparr>),
       real_ip = (\<lambda>r. r\<lparr> req_remote_addr := ''203.0.113.7'' \<rparr>),
       origin_allowed = (\<lambda>opts r. True),
       headers_allowed = (\<lambda>opts r. True),
       is_preflight = (\<lambda>r. req_method r = ''OPTIONS''),
       preflight_status = 200 \<rparr>"

definition example_request :: request where
  "example_request =
     \<lparr> req_method = ''POST'',
       req_path = ''/1.0/articles'',
       req_headers = [(''Origin'', ''https://example.org'')],
       req_remote_addr = ''10.0.0.1:4000'',
       req_id = None \<rparr>"


section \<open>Lemmas about the migration runner\<close>

lemma migrate_loop_append:
  "migrate_loop now seen (xs @ ys) st n =
     (case migrate_loop now seen xs st n of
        (Inl e, st') \<Rightarrow> (Inl e, st')
      | (Inr k, st') \<Rightarrow> migrate_loop now seen ys st' k)"
  by (induction xs arbitrary: st n) (auto split: option.splits)



lemma ledger_ids_snoc:
  "ledger_ids (st\<lparr> contents := d, ledger := ledger st @ [\<lparr> entry_id = i, appliedAt = t \<rparr>] \<rparr>)
     = ledger_ids st @ [i]"
  by (simp add: ledger_ids_def)

lemma migrate_loop_success_ledger:
  "migrate_loop now seen ms st n = (Inr k, st') \<Longrightarrow>
     set (ledger_ids st') = set (ledger_ids st) \<union> {i \<in> set (map mig_id ms). i \<notin> set seen}"
proof (induction ms arbitrary: st n)
  case Nil
  then show ?case by simp
next
  case (Cons m ms)
  show ?case
  proof (cases "mig_id m \<in> set seen")
    case True
    with Cons show ?thesis by auto
  next
    case False
    with Cons.prems obtain d where d: "applyFn m (contents st) = Some d"
      by (auto split: option.splits)
    let ?st = "st\<lparr> contents := d, ledger := ledger st @ [\<lparr> entry_id = mig_id m, appliedAt = now \<rparr>] \<rparr>"
    from Cons.prems False d have "migrate_loop now seen ms ?st (Suc n) = (Inr k, st')"
      by simp
    from Cons.IH [OF this] False show ?thesis
      by (auto simp: ledger_ids_snoc)
  qed
qed

lemma migrate_loop_success_prefix:
  "migrate_loop now seen ms st n = (r, st') \<Longrightarrow> prefix (ledger st) (ledger st')"
proof (induction ms arbitrary: st n)
  case Nil
  then show ?case by simp
next
  case (Cons m ms)
  show ?case
  proof (cases "mig_id m \<in> set seen")
    case True
    with Cons show ?thesis by auto
  next
    case False
    show ?thesis
    proof (cases "applyFn m (contents st)")
      case None
      with Cons.prems False show ?thesis by simp
    next
      case (Some d)
      let ?st = "st\<lparr> contents := d, ledger := ledger st @ [\<lparr> entry_id = mig_id m, appliedAt = now \<rparr>] \<rparr>"
      from Cons.prems False Some have "migrate_loop now seen ms ?st (Suc n) = (r, st')"
        by simp
      from Cons.IH [OF this] have "prefix (ledger st @ [\<lparr> entry_id = mig_id m, appliedAt = now \<rparr>]) (ledger st')"
        by simp
      then show ?thesis by (rule append_prefixD)
    qed
  qed
qed



section \<open>Claims about the migration runner\<close>

text \<open>
  C5. If migration \<open>k\<close> fails, that is: the migrations before it in declared order went
  through, \<open>k\<close> is not in the ledger and its apply procedure fails on the store they
  left, then the run returns \<open>MigrationError\<close> with the id of \<open>k\<close>, and
  \<^verbatim>\<open>db.Migrate\<close> hands that error to \<^verbatim>\<open>initDatabase\<close>. No migration after \<open>k\<close> is
  attempted: result and store are the same whatever follows \<open>k\<close> in the list, and the
  store is the one the migrations before \<open>k\<close> left. The ledger has only grown at its
  end, and it holds what it held before plus the ids of the migrations before \<open>k\<close>.
  \<^verbatim>\<open>initDatabase\<close>, once \<^verbatim>\<open>postgres.New\<close> and \<^verbatim>\<open>Connect\<close> went through, returns
  that error to \<^verbatim>\<open>main\<close> (lines 105 to 107).
\<close>

theorem migrate_stops_at_first_failure:
  assumes pre_ok: "migrate now st pre = (Inr n, st1)"
    and fresh: "mig_id k \<notin> set (ledger_ids st)"
    and fails: "applyFn k (contents st1) = None"
  shows "migrate now st (pre @ k # post) = (Inl (MigrationError (mig_id k)), st1)
       \<and> db_Migrate now st (pre @ k # post) = (Some (MigrationError (mig_id k)), st1)
       \<and> prefix (ledger st) (ledger st1)
       \<and> set (ledger_ids st1) = set (ledger_ids st) \<union> set (map mig_id pre)
       \<and> (new_result env = None \<and> connect_result env = None
            \<and> article_migrations env = pre @ k # post
            \<and> db_store env = st \<and> db_clock env = now
          \<longrightarrow> snd (initDatabase env dsn pcfg s) = Inl (MigrationError (mig_id k)))"
proof -
  from pre_ok have loop: "migrate_loop now (ledger_ids st) pre st 0 = (Inr n, st1)"
    by (simp add: migrate_def)
  have run: "migrate now st (pre @ k # post) = (Inl (MigrationError (mig_id k)), st1)"
    using loop fresh fails by (simp add: migrate_def migrate_loop_append)
  have db: "db_Migrate now st (pre @ k # post) = (Some (MigrationError (mig_id k)), st1)"
    using run by (simp add: db_Migrate_def)
  have grow: "prefix (ledger st) (ledger st1)"
    using loop by (rule migrate_loop_success_prefix)
  have ids: "set (ledger_ids st1) = set (ledger_ids st) \<union> set (map mig_id pre)"
    using migrate_loop_success_ledger [OF loop] by auto
  have init: "new_result env = None \<and> connect_result env = None
            \<and> article_migrations env = pre @ k # post
            \<and> db_store env = st \<and> db_clock env = now
          \<longrightarrow> snd (initDatabase env dsn pcfg s) = Inl (MigrationError (mig_id k))"
    using db by (simp add: initDatabase_def Let_def)
  show ?thesis
    by (intro conjI run db grow ids init)
qed

theorem migrate_stops_at_first_failure_witness:
  "migrate 7 \<lparr> ledger = [], contents = 0::nat \<rparr>
     ([\<lparr> mig_id = ''001'', applyFn = (\<lambda>d. Some (Suc d)) \<rparr>]
       @ \<lparr> mig_id = ''002'', applyFn = (\<lambda>d. None) \<rparr>
       # [\<lparr> mig_id = ''003'', applyFn = (\<lambda>d. Some (d + 10)) \<rparr>])
   = (Inl (MigrationError ''002''),
      \<lparr> ledger = [\<lparr> entry_id = ''001'', appliedAt = 7 \<rparr>], contents = Suc 0 \<rparr>)
   \<and> migrate 7 \<lparr> ledger = [], contents = 0::nat \<rparr>
        [\<lparr> mig_id = ''001'', applyFn = (\<lambda>d. Some (Suc d)) \<rparr>]
      = (Inr (Suc 0), \<lparr> ledger = [\<lparr> entry_id = ''001'', appliedAt = 7 \<rparr>], contents = Suc 0 \<rparr>)"
proof -
  let ?st = "\<lparr> ledger = [], contents = 0::nat \<rparr>"
  let ?st1 = "\<lparr> ledger = [\<lparr> entry_id = ''001'', appliedAt = 7 \<rparr>], contents = Suc 0 \<rparr>"
  let ?pre = "[\<lparr> mig_id = ''001'', applyFn = (\<lambda>d::nat. Some (Suc d)) \<rparr>]"
  let ?k = "\<lparr> mig_id = ''002'', applyFn = (\<lambda>d::nat. None) \<rparr>"
  have h1: "migrate 7 ?st ?pre = (Inr (Suc 0), ?st1)"
    by (simp add: migrate_def ledger_ids_def)
  have h2: "mig_id ?k \<notin> set (ledger_ids ?st)"
    by (simp add: ledger_ids_def)
  have h3: "applyFn ?k (contents ?st1) = None"
    by simp
  from migrate_stops_at_first_failure [OF h1 h2 h3] h1 show ?thesis
    by simp
qed





section \<open>Lemmas about runs\<close>

lemma step_not_running: "status s \<noteq> Running \<Longrightarrow> step env a s = s"
  by (simp add: step_def)

lemma exec_not_running: "status s \<noteq> Running \<Longrightarrow> exec env s sched = s"
  by (induction sched) (simp_all add: step_not_running)

lemma exec_append: "exec env s (xs @ ys) = exec env (exec env s xs) ys"
  by (induction xs arbitrary: s) simp_all

lemma exec_invariant:
  assumes "\<And>a s. P s \<Longrightarrow> P (step env a s)" and "P s"
  shows "P (exec env s sched)"
  using assms(2) by (induction sched arbitrary: s) (simp_all add: assms(1))

lemma init_error_cases:
  "init_error env =
     (case new_result env of
        Some e \<Rightarrow> Some e
      | None \<Rightarrow>
          (case connect_result env of
             Some e \<Rightarrow> Some e
           | None \<Rightarrow> fst (db_Migrate (db_clock env) (db_store env) (article_migrations env))))"
  by (simp add: init_error_def initDatabase_def Let_def split: option.splits prod.splits)

lemma bootstrap_ok:
  assumes "parse_result env = None" "\<not> Version (env_flags env)" "init_error env = None"
  shows "main_bootstrap env =
     \<lparr> events = boot_events env, status = Running, readiness = StatusOK,
       ignored = [SIGHUP, SIGPIPE], notified = [SIGINT, SIGTERM], sigquit = [],
       mpc = AtLogStarting, gpc = Armed \<rparr>"
  using assms
  by (simp add: main_bootstrap_def parseFlags_def init_error_def initDatabase_def Let_def
      emit_def init_proc_def signal_Ignore_def signal_Notify_def boot_events_def
      health_initial_status_def
      split: option.splits prod.splits)

lemma bootstrap_new_fails:
  assumes "parse_result env = None" "\<not> Version (env_flags env)" "new_result env = Some e"
  shows "main_bootstrap env =
     \<lparr> events = [ParseFlags,
         LogNew (Format (Log (env_flags env))) (Level (Log (env_flags env))),
         LogInfo ''started with config: %+v'', ArticleMigrations,
         PostgresNew (URL (Postgres (env_flags env))) (main_postgres_config (env_flags env)),
         LogFatal e],
       status = Exited 1, readiness = StatusOK,
       ignored = [], notified = [], sigquit = [],
       mpc = Bootstrapping, gpc = NotSpawned \<rparr>"
  using assms
  by (simp add: main_bootstrap_def parseFlags_def initDatabase_def Let_def
      emit_def init_proc_def logger_Fatal_def os_Exit_def health_initial_status_def)

lemma bootstrap_connect_fails:
  assumes "parse_result env = None" "\<not> Version (env_flags env)" "new_result env = None"
    "connect_result env = Some e"
  shows "main_bootstrap env =
     \<lparr> events = [ParseFlags,
         LogNew (Format (Log (env_flags env))) (Level (Log (env_flags env))),
         LogInfo ''started with config: %+v'', ArticleMigrations,
         PostgresNew (URL (Postgres (env_flags env))) (main_postgres_config (env_flags env)),
         DbConnect, LogFatal e],
       status = Exited 1, readiness = StatusOK,
       ignored = [], notified = [], sigquit = [],
       mpc = Bootstrapping, gpc = NotSpawned \<rparr>"
  using assms
  by (simp add: main_bootstrap_def parseFlags_def initDatabase_def Let_def
      emit_def init_proc_def logger_Fatal_def os_Exit_def health_initial_status_def)

lemma bootstrap_migrate_fails:
  assumes "parse_result env = None" "\<not> Version (env_flags env)" "new_result env = None"
    "connect_result env = None"
    "fst (db_Migrate (db_clock env) (db_store env) (article_migrations env)) = Some e"
  shows "main_bootstrap env =
     \<lparr> events = [ParseFlags,
         LogNew (Format (Log (env_flags env))) (Level (Log (env_flags env))),
         LogInfo ''started with config: %+v'', ArticleMigrations,
         PostgresNew (URL (Postgres (env_flags env))) (main_postgres_config (env_flags env)),
         DbConnect, DbMigrate (map mig_id (article_migrations env)), LogFatal e],
       status = Exited 1, readiness = StatusOK,
       ignored = [], notified = [], sigquit = [],
       mpc = Bootstrapping, gpc = NotSpawned \<rparr>"
proof (cases "db_Migrate (db_clock env) (db_store env) (article_migrations env)")
  case (Pair r st)
  with assms show ?thesis
    by (simp add: main_bootstrap_def parseFlags_def initDatabase_def Let_def
        emit_def init_proc_def logger_Fatal_def os_Exit_def health_initial_status_def)
qed

lemma bootstrap_flags_fail:
  assumes "parse_result env \<noteq> None \<or> Version (env_flags env)"
  shows "status (main_bootstrap env) \<noteq> Running
       \<and> List.map_filter phase_of (events (main_bootstrap env)) = [Configuration]"
  using assms
  by (auto simp add: main_bootstrap_def parseFlags_def Let_def List.map_filter_def
      emit_def init_proc_def os_Exit_def split: option.splits parse_error.splits)

lemma boot_phase_list:
  "List.map_filter phase_of (boot_events env) =
     [Configuration, Connection, Connection, Migration,
      Pipeline, Pipeline, Pipeline, Pipeline, Pipeline, Pipeline,
      Coordinator, Coordinator, Coordinator]"
  by (simp add: boot_events_def List.map_filter_def)

lemma map_filter_append:
  "List.map_filter f (xs @ ys) = List.map_filter f xs @ List.map_filter f ys"
  by (simp add: List.map_filter_def)

lemma serving_phases_step:
  assumes "List.map_filter phase_of (events s) =
             List.map_filter phase_of (boot_events env)
               @ (if listener_started (mpc s) then [Listener] else [])
           \<and> mpc s \<noteq> Bootstrapping \<and> gpc s \<noteq> NotSpawned
           \<and> (\<forall>v. ReadinessProbe v \<in> set (events s) \<longrightarrow> listener_started (mpc s))"
  shows "List.map_filter phase_of (events (step env' a s)) =
             List.map_filter phase_of (boot_events env)
               @ (if listener_started (mpc (step env' a s)) then [Listener] else [])
           \<and> mpc (step env' a s) \<noteq> Bootstrapping \<and> gpc (step env' a s) \<noteq> NotSpawned
           \<and> (\<forall>v. ReadinessProbe v \<in> set (events (step env' a s))
                 \<longrightarrow> listener_started (mpc (step env' a s)))"
proof (cases "status s = Running")
  case False
  with assms show ?thesis by (simp add: step_not_running)
next
  case True
  show ?thesis
  proof (cases a)
    case MainStep
    with True assms show ?thesis
      by (cases "mpc s")
         (auto simp: step_def main_step_def emit_def os_Exit_def listener_started_def
               map_filter_append List.map_filter_def split: option.splits)
  next
    case CoordStep
    with True assms show ?thesis
      by (cases "gpc s")
         (auto simp: step_def coord_step_def emit_def health_SetReadinessStatus_def
               map_filter_append List.map_filter_def split: option.splits list.splits)
  next
    case (Deliver sg)
    with True assms show ?thesis
      by (auto simp: step_def deliver_def)
  next
    case Probe
    with True assms show ?thesis
      by (auto simp: step_def probe_def emit_def map_filter_append List.map_filter_def)
  qed
qed

lemma booted_cases:
  "(parse_result env \<noteq> None \<or> Version (env_flags env))
   \<or> (parse_result env = None \<and> \<not> Version (env_flags env) \<and> init_error env = None)
   \<or> (parse_result env = None \<and> \<not> Version (env_flags env) \<and> (\<exists>e. init_error env = Some e))"
  by (cases "init_error env") auto

lemma serving_phases:
  assumes ok: "parse_result env = None" "\<not> Version (env_flags env)" "init_error env = None"
  shows "List.map_filter phase_of (events (main env sched)) =
             List.map_filter phase_of (boot_events env)
               @ (if listener_started (mpc (main env sched)) then [Listener] else [])
           \<and> mpc (main env sched) \<noteq> Bootstrapping \<and> gpc (main env sched) \<noteq> NotSpawned
           \<and> (\<forall>v. ReadinessProbe v \<in> set (events (main env sched))
                 \<longrightarrow> listener_started (mpc (main env sched)))"
  unfolding main_def
proof (rule exec_invariant)
  fix a and s :: proc
  assume "List.map_filter phase_of (events s) =
             List.map_filter phase_of (boot_events env)
               @ (if listener_started (mpc s) then [Listener] else [])
           \<and> mpc s \<noteq> Bootstrapping \<and> gpc s \<noteq> NotSpawned
           \<and> (\<forall>v. ReadinessProbe v \<in> set (events s) \<longrightarrow> listener_started (mpc s))"
  then show "List.map_filter phase_of (events (step env a s)) =
             List.map_filter phase_of (boot_events env)
               @ (if listener_started (mpc (step env a s)) then [Listener] else [])
           \<and> mpc (step env a s) \<noteq> Bootstrapping \<and> gpc (step env a s) \<noteq> NotSpawned
           \<and> (\<forall>v. ReadinessProbe v \<in> set (events (step env a s))
                 \<longrightarrow> listener_started (mpc (step env a s)))"
    by (rule serving_phases_step)
next
  show "List.map_filter phase_of (events (main_bootstrap env)) =
             List.map_filter phase_of (boot_events env)
               @ (if listener_started (mpc (main_bootstrap env)) then [Listener] else [])
           \<and> mpc (main_bootstrap env) \<noteq> Bootstrapping \<and> gpc (main_bootstrap env) \<noteq> NotSpawned
           \<and> (\<forall>v. ReadinessProbe v \<in> set (events (main_bootstrap env))
                 \<longrightarrow> listener_started (mpc (main_bootstrap env)))"
    by (simp add: bootstrap_ok [OF ok] listener_started_def boot_events_def)
qed

lemma init_error_SomeD:
  assumes "init_error env = Some e"
  shows "new_result env = Some e
       \<or> (new_result env = None \<and> connect_result env = Some e)
       \<or> (new_result env = None \<and> connect_result env = None
           \<and> fst (db_Migrate (db_clock env) (db_store env) (article_migrations env)) = Some e)"
  using assms by (auto simp: init_error_cases split: option.splits)

lemma failed_run:
  assumes "status (main_bootstrap env) \<noteq> Running"
  shows "main env sched = main_bootstrap env"
  using assms by (simp add: main_def exec_not_running)


lemma example_env_ok:
  "parse_result example_env = None"
  "\<not> Version (env_flags example_env)"
  "init_error example_env = None"
  by (simp_all add: init_error_cases example_env_def example_flags_def db_Migrate_def
      migrate_def ledger_ids_def)



section \<open>Claim about the bootstrap\<close>

text \<open>
  C1. In every run the phases appear in the order configuration, connection,
  migration, pipeline, coordinator, listener: the phases of the trace are a prefix of
  that list, so the listener is started only after the pipeline is assembled and the
  goroutine that waits for signals has been started, and that goroutine runs beside
  the serving main goroutine. When the flags parse and \<^verbatim>\<open>initDatabase\<close> returns no
  error, three steps of the main goroutine reach the listener with all phases done in
  order and the coordinator armed. When \<^verbatim>\<open>initDatabase\<close> returns an error (from
  \<^verbatim>\<open>postgres.New\<close>, \<^verbatim>\<open>Connect\<close> or \<^verbatim>\<open>Migrate\<close>), then whatever the schedule the process
  has exited with status 1 right after the fatal log entry, no probe was answered, and
  no call of a later phase was made: no pipeline, no coordinator, no listener, and
  after a connection failure no migration either.
\<close>

theorem bootstrap_order_fail_fast:
  fixes env :: "'d env"
  shows "prefix (phases (events (main env sched))) bootstrap_order
    \<and> (Listener \<in> set (phases (events (main env sched)))
         \<longrightarrow> init_error env = None \<and> gpc (main env sched) \<noteq> NotSpawned)
    \<and> (parse_result env = None \<and> \<not> Version (env_flags env) \<and> init_error env = None
         \<longrightarrow> phases (events (main_bootstrap env))
               = [Configuration, Connection, Migration, Pipeline, Coordinator]
           \<and> phases (events (main env [MainStep, MainStep, MainStep])) = bootstrap_order
           \<and> mpc (main env [MainStep, MainStep, MainStep]) = Listening
           \<and> gpc (main env [MainStep, MainStep, MainStep]) = Armed)
    \<and> (parse_result env = None \<and> \<not> Version (env_flags env) \<and> init_error env = Some e
         \<longrightarrow> status (main env sched) = Exited 1
           \<and> events (main env sched) = events (main_bootstrap env)
           \<and> last (events (main env sched)) = LogFatal e
           \<and> (\<forall>ev \<in> set (events (main env sched)).
                 \<not> is_probe ev
                 \<and> phase_of ev \<noteq> Some Pipeline
                 \<and> phase_of ev \<noteq> Some Coordinator
                 \<and> phase_of ev \<noteq> Some Listener)
           \<and> (new_result env \<noteq> None
                 \<longrightarrow> DbConnect \<notin> set (events (main env sched)))
           \<and> (new_result env \<noteq> None \<or> connect_result env \<noteq> None
                 \<longrightarrow> phases (events (main env sched)) = [Configuration, Connection])
           \<and> (new_result env = None \<and> connect_result env = None
                 \<longrightarrow> phases (events (main env sched))
                       = [Configuration, Connection, Migration]))"
proof -
  consider
    (flags) "parse_result env \<noteq> None \<or> Version (env_flags env)"
    | (ok) "parse_result env = None" "\<not> Version (env_flags env)" "init_error env = None"
    | (failed) e' where "parse_result env = None" "\<not> Version (env_flags env)"
        "init_error env = Some e'"
    using booted_cases [of env] by blast
  then show ?thesis
  proof cases
    case flags
    from bootstrap_flags_fail [OF flags] have
      st: "status (main_bootstrap env) \<noteq> Running"
      and ph: "List.map_filter phase_of (events (main_bootstrap env)) = [Configuration]"
      by simp_all
    have run: "main env sched = main_bootstrap env"
      using st by (rule failed_run)
    show ?thesis
      using flags by (auto simp: run phases_def ph bootstrap_order_def)
  next
    case ok
    note inv = serving_phases [OF ok, of sched]
    have boot: "phases (events (main_bootstrap env))
                  = [Configuration, Connection, Migration, Pipeline, Coordinator]"
      by (simp add: bootstrap_ok [OF ok] phases_def boot_phase_list)
    have three: "main env [MainStep, MainStep, MainStep] =
       \<lparr> events = boot_events env @ [LogInfo ''starting http service...'',
            LogInfo ''listening on %s'', ListenAndServe (Addr (HTTP (env_flags env)))],
         status = Running, readiness = StatusOK,
         ignored = [SIGHUP, SIGPIPE], notified = [SIGINT, SIGTERM], sigquit = [],
         mpc = Listening, gpc = Armed \<rparr>"
      by (simp add: main_def bootstrap_ok [OF ok] step_def main_step_def emit_def)
    have ph3: "phases (events (main env [MainStep, MainStep, MainStep])) = bootstrap_order"
      by (simp add: three phases_def map_filter_append boot_phase_list bootstrap_order_def
          List.map_filter_def [of phase_of "[LogInfo ''starting http service...'',
            LogInfo ''listening on %s'', ListenAndServe (Addr (HTTP (env_flags env)))]"])
    have pre: "prefix (phases (events (main env sched))) bootstrap_order"
      using inv by (simp add: phases_def boot_phase_list bootstrap_order_def)
    have lis: "gpc (main env sched) \<noteq> NotSpawned"
      using inv by simp
    show ?thesis
      using ok pre lis boot ph3 by (simp add: three)
  next
    case failed
    note flags = failed(1,2)
    consider
      (new) "new_result env = Some e'"
      | (connect) "new_result env = None" "connect_result env = Some e'"
      | (migrate) "new_result env = None" "connect_result env = None"
          "fst (db_Migrate (db_clock env) (db_store env) (article_migrations env)) = Some e'"
      using init_error_SomeD [OF failed(3)] by auto
    then show ?thesis
    proof cases
      case new
      note b = bootstrap_new_fails [OF flags new]
      have run: "main env sched = main_bootstrap env"
        by (rule failed_run) (simp add: b)
      show ?thesis
        using failed new
        by (simp add: run b phases_def List.map_filter_def bootstrap_order_def is_probe_def)
    next
      case connect
      note b = bootstrap_connect_fails [OF flags connect]
      have run: "main env sched = main_bootstrap env"
        by (rule failed_run) (simp add: b)
      show ?thesis
        using failed connect
        by (simp add: run b phases_def List.map_filter_def bootstrap_order_def is_probe_def)
    next
      case migrate
      note b = bootstrap_migrate_fails [OF flags migrate]
      have run: "main env sched = main_bootstrap env"
        by (rule failed_run) (simp add: b)
      show ?thesis
        using failed migrate
        by (simp add: run b phases_def List.map_filter_def bootstrap_order_def is_probe_def)
    qed
  qed
qed

theorem bootstrap_order_fail_fast_witness:
  "init_error (example_env\<lparr> connect_result := Some (ConnectionError ''refused'') \<rparr>)
     = Some (ConnectionError ''refused'')
   \<and> status (main (example_env\<lparr> connect_result := Some (ConnectionError ''refused'') \<rparr>)
               [MainStep, MainStep, MainStep, Probe])
     = Exited 1
   \<and> phases (events (main (example_env\<lparr> connect_result := Some (ConnectionError ''refused'') \<rparr>)
               [MainStep, MainStep, MainStep, Probe]))
     = [Configuration, Connection]
   \<and> init_error example_env = None
   \<and> phases (events (main example_env [MainStep, MainStep, MainStep])) = bootstrap_order
   \<and> gpc (main example_env [MainStep, MainStep, MainStep]) = Armed"
proof -
  let ?bad = "example_env\<lparr> connect_result := Some (ConnectionError ''refused'') \<rparr>"
  have bad: "parse_result ?bad = None" "\<not> Version (env_flags ?bad)"
    "init_error ?bad = Some (ConnectionError ''refused'')" "connect_result ?bad \<noteq> None"
    by (simp_all add: init_error_cases example_env_def example_flags_def)
  from bootstrap_order_fail_fast
         [of ?bad "[MainStep, MainStep, MainStep, Probe]" "ConnectionError ''refused''"] bad
  have "status (main ?bad [MainStep, MainStep, MainStep, Probe]) = Exited 1"
    and "phases (events (main ?bad [MainStep, MainStep, MainStep, Probe]))
           = [Configuration, Connection]"
    by blast+
  moreover
  from bootstrap_order_fail_fast [of example_env "[]" ErrServerClosed] example_env_ok
  have "phases (events (main example_env [MainStep, MainStep, MainStep])) = bootstrap_order"
    and "gpc (main example_env [MainStep, MainStep, MainStep]) = Armed"
    by blast+
  ultimately show ?thesis
    using bad(3) example_env_ok(3) by simp
qed



section \<open>Lemmas about the readiness cell\<close>

lemma snoc_eq_append_Cons:
  "xs @ [x] = pre @ y # post \<longleftrightarrow>
     (pre = xs \<and> y = x \<and> post = []) \<or> (\<exists>post'. xs = pre @ y # post' \<and> post = post' @ [x])"
proof (cases post rule: rev_cases)
  case Nil
  then show ?thesis by auto
next
  case (snoc post' z)
  then show ?thesis by (auto simp flip: append_assoc append_Cons)
qed

lemma readiness_after_Nil: "readiness_after [] = health_initial_status"
  by (simp add: readiness_after_def)

lemma is_readiness_write_iff: "is_readiness_write e \<longleftrightarrow> (\<exists>w. e = SetReadinessStatus w)"
  by (cases e) (simp_all add: is_readiness_write_def)

lemma is_probe_iff: "is_probe e \<longleftrightarrow> (\<exists>v. e = ReadinessProbe v)"
  by (cases e) (simp_all add: is_probe_def)

lemma readiness_after_snoc_write: "readiness_after (tr @ [SetReadinessStatus w]) = w"
  by (simp add: readiness_after_def)

lemma readiness_after_snoc_other:
  "\<not> is_readiness_write e \<Longrightarrow> readiness_after (tr @ [e]) = readiness_after tr"
  by (cases e) (simp_all add: readiness_after_def is_readiness_write_def)

lemma drain_after_flip_snoc:
  "drain_after_flip (tr @ [e]) \<longleftrightarrow>
     drain_after_flip tr
     \<and> (e = SrvShutdown \<longrightarrow> SetReadinessStatus StatusServiceUnavailable \<in> set tr)"
  unfolding drain_after_flip_def snoc_eq_append_Cons by auto

lemma probes_read_cell_snoc:
  "probes_read_cell (tr @ [e]) \<longleftrightarrow>
     probes_read_cell tr \<and> (\<forall>v. e = ReadinessProbe v \<longrightarrow> v = readiness_after tr)"
  unfolding probes_read_cell_def snoc_eq_append_Cons by auto

lemma readiness_after_no_write:
  "\<forall>e \<in> set tr. \<not> is_readiness_write e \<Longrightarrow> readiness_after tr = health_initial_status"
  by (induction tr rule: rev_induct)
     (simp_all add: readiness_after_Nil readiness_after_snoc_other)

lemma drain_after_flip_no_drain: "SrvShutdown \<notin> set tr \<Longrightarrow> drain_after_flip tr"
  by (auto simp: drain_after_flip_def)

lemma probes_read_cell_no_probe: "\<forall>e \<in> set tr. \<not> is_probe e \<Longrightarrow> probes_read_cell tr"
  by (auto simp: probes_read_cell_def is_probe_iff)

lemma readiness_after_single_value:
  "\<forall>e \<in> set tr. is_readiness_write e \<longrightarrow> e = SetReadinessStatus StatusServiceUnavailable \<Longrightarrow>
     readiness_after tr =
       (if SetReadinessStatus StatusServiceUnavailable \<in> set tr
        then StatusServiceUnavailable else StatusOK)"
proof (induction tr rule: rev_induct)
  case Nil
  then show ?case by (simp add: readiness_after_Nil health_initial_status_def)
next
  case (snoc x xs)
  show ?case
  proof (cases "is_readiness_write x")
    case True
    with snoc.prems have "x = SetReadinessStatus StatusServiceUnavailable" by simp
    then show ?thesis by (simp add: readiness_after_snoc_write)
  next
    case False
    then have "x \<noteq> SetReadinessStatus StatusServiceUnavailable"
      by (auto simp: is_readiness_write_iff)
    with False snoc show ?thesis by (simp add: readiness_after_snoc_other)
  qed
qed

lemma filter_singleton_mem: "filter P xs = [x] \<Longrightarrow> x \<in> set xs"
proof -
  assume "filter P xs = [x]"
  then have "x \<in> set (filter P xs)" by simp
  then show ?thesis by simp
qed

lemma readiness_inv_main_step: "readiness_inv s \<Longrightarrow> readiness_inv (main_step env s)"
  by (cases "mpc s")
     (auto simp: readiness_inv_def main_step_def emit_def os_Exit_def
        drain_after_flip_snoc probes_read_cell_snoc readiness_after_snoc_other
        is_readiness_write_def split: option.splits)

lemma readiness_inv_coord_step: "readiness_inv s \<Longrightarrow> readiness_inv (coord_step env s)"
  by (cases "gpc s")
     (auto simp: readiness_inv_def coord_step_def emit_def health_SetReadinessStatus_def
        drain_after_flip_snoc probes_read_cell_snoc readiness_after_snoc_other
        readiness_after_snoc_write flipped_def
        is_readiness_write_def dest: filter_singleton_mem split: option.splits list.splits)

lemma readiness_inv_deliver: "readiness_inv s \<Longrightarrow> readiness_inv (deliver sg s)"
  by (simp add: readiness_inv_def deliver_def)

lemma readiness_inv_probe: "readiness_inv s \<Longrightarrow> readiness_inv (probe s)"
  by (auto simp: readiness_inv_def probe_def emit_def
        drain_after_flip_snoc probes_read_cell_snoc readiness_after_snoc_other
        is_readiness_write_def)

lemma readiness_inv_step: "readiness_inv s \<Longrightarrow> readiness_inv (step env a s)"
  by (cases a)
     (simp_all add: step_def readiness_inv_main_step readiness_inv_coord_step
        readiness_inv_deliver readiness_inv_probe)

lemma bootstrap_flags_fail_state:
  assumes "parse_result env \<noteq> None \<or> Version (env_flags env)"
  shows "readiness (main_bootstrap env) = StatusOK
       \<and> gpc (main_bootstrap env) = NotSpawned
       \<and> mpc (main_bootstrap env) = Bootstrapping
       \<and> (\<forall>e \<in> set (events (main_bootstrap env)).
             e = ParseFlags \<or> (\<exists>m. e = Stderr m) \<or> (\<exists>m. e = Stdout m))"
  using assms
  by (auto simp add: main_bootstrap_def parseFlags_def Let_def health_initial_status_def
      emit_def init_proc_def os_Exit_def split: option.splits parse_error.splits)

lemma bootstrap_quiet:
  "readiness (main_bootstrap env) = StatusOK
   \<and> \<not> flipped (gpc (main_bootstrap env))
   \<and> (\<forall>e \<in> set (events (main_bootstrap env)).
         \<not> is_readiness_write e \<and> e \<noteq> SrvShutdown \<and> \<not> is_probe e)"
proof -
  consider
    (flags) "parse_result env \<noteq> None \<or> Version (env_flags env)"
    | (ok) "parse_result env = None" "\<not> Version (env_flags env)" "init_error env = None"
    | (failed) e' where "parse_result env = None" "\<not> Version (env_flags env)"
        "init_error env = Some e'"
    using booted_cases [of env] by blast
  then show ?thesis
  proof cases
    case flags
    from bootstrap_flags_fail_state [OF flags] show ?thesis
      by (auto simp: flipped_def is_readiness_write_def is_probe_def)
  next
    case ok
    show ?thesis
      by (simp add: bootstrap_ok [OF ok] boot_events_def flipped_def
          is_readiness_write_def is_probe_def)
  next
    case failed
    note flags = failed(1,2)
    consider
      (new) "new_result env = Some e'"
      | (connect) "new_result env = None" "connect_result env = Some e'"
      | (migrate) "new_result env = None" "connect_result env = None"
          "fst (db_Migrate (db_clock env) (db_store env) (article_migrations env)) = Some e'"
      using init_error_SomeD [OF failed(3)] by auto
    then show ?thesis
    proof cases
      case new
      show ?thesis
        by (simp add: bootstrap_new_fails [OF flags new] flipped_def
            is_readiness_write_def is_probe_def)
    next
      case connect
      show ?thesis
        by (simp add: bootstrap_connect_fails [OF flags connect] flipped_def
            is_readiness_write_def is_probe_def)
    next
      case migrate
      show ?thesis
        by (simp add: bootstrap_migrate_fails [OF flags migrate] flipped_def
            is_readiness_write_def is_probe_def)
    qed
  qed
qed

lemma readiness_inv_bootstrap: "readiness_inv (main_bootstrap env)"
proof -
  note q = bootstrap_quiet [of env]
  have "readiness_after (events (main_bootstrap env)) = health_initial_status"
    using q by (intro readiness_after_no_write) simp
  moreover have "drain_after_flip (events (main_bootstrap env))"
    using q by (intro drain_after_flip_no_drain) auto
  moreover have "probes_read_cell (events (main_bootstrap env))"
    using q by (intro probes_read_cell_no_probe) simp
  moreover have "filter is_readiness_write (events (main_bootstrap env)) = []"
    using q by (simp add: filter_empty_conv)
  moreover have "SrvShutdown \<notin> set (events (main_bootstrap env))"
    using q by auto
  ultimately show ?thesis
    using q by (simp add: readiness_inv_def health_initial_status_def)
qed

lemma readiness_inv_main: "readiness_inv (main env sched)"
  unfolding main_def
  by (rule exec_invariant) (simp_all add: readiness_inv_step readiness_inv_bootstrap)

lemma flipped_step: "flipped (gpc s) \<Longrightarrow> flipped (gpc (step env a s))"
proof (cases a)
  case CoordStep
  assume "flipped (gpc s)"
  with CoordStep show ?thesis
    by (cases "gpc s")
       (simp_all add: step_def coord_step_def emit_def flipped_def split: option.splits)
next
  case MainStep
  assume "flipped (gpc s)"
  with MainStep show ?thesis
    by (cases "mpc s")
       (simp_all add: step_def main_step_def emit_def os_Exit_def split: option.splits)
next
  case (Deliver sg)
  assume "flipped (gpc s)"
  with Deliver show ?thesis by (simp add: step_def deliver_def)
next
  case Probe
  assume "flipped (gpc s)"
  with Probe show ?thesis by (simp add: step_def probe_def emit_def)
qed

lemma flipped_exec: "flipped (gpc s) \<Longrightarrow> flipped (gpc (exec env s sched))"
  by (rule exec_invariant [where P = "\<lambda>s. flipped (gpc s)"]) (simp_all add: flipped_step)

lemma readiness_inv_writes:
  assumes "readiness_inv s" "e \<in> set (events s)" "is_readiness_write e"
  shows "e = SetReadinessStatus StatusServiceUnavailable"
proof -
  from assms(2,3) have mem: "e \<in> set (filter is_readiness_write (events s))" by simp
  show ?thesis
  proof (cases "flipped (gpc s)")
    case True
    with assms(1) have f: "filter is_readiness_write (events s)
                            = [SetReadinessStatus StatusServiceUnavailable]"
      by (simp add: readiness_inv_def)
    from mem show ?thesis unfolding f by simp
  next
    case False
    with assms(1) have f: "filter is_readiness_write (events s) = []"
      by (simp add: readiness_inv_def)
    from mem show ?thesis unfolding f by simp
  qed
qed

lemma readiness_inv_value:
  assumes "readiness_inv s"
  shows "readiness s = (if flipped (gpc s) then StatusServiceUnavailable else StatusOK)"
proof -
  have w: "\<forall>e \<in> set (events s).
             is_readiness_write e \<longrightarrow> e = SetReadinessStatus StatusServiceUnavailable"
    using readiness_inv_writes [OF assms] by blast
  have m: "SetReadinessStatus StatusServiceUnavailable \<in> set (events s) \<longleftrightarrow> flipped (gpc s)"
  proof (cases "flipped (gpc s)")
    case True
    with assms show ?thesis
      by (auto simp: readiness_inv_def dest: filter_singleton_mem)
  next
    case False
    with assms have "filter is_readiness_write (events s) = []"
      by (simp add: readiness_inv_def)
    then have "SetReadinessStatus StatusServiceUnavailable \<notin> set (events s)"
      by (auto simp: filter_empty_conv is_readiness_write_def)
    with False show ?thesis by simp
  qed
  from assms have "readiness s = readiness_after (events s)"
    by (simp add: readiness_inv_def)
  with readiness_after_single_value [OF w] m show ?thesis by simp
qed



section \<open>Claim about the readiness cell\<close>

text \<open>
  C2. The readiness cell is OK when \<^verbatim>\<open>main\<close> starts. In every run the trace has at most
  one write to the cell, and a write writes UNAVAILABLE. Every request to drain the
  server (\<^verbatim>\<open>srv.Shutdown\<close>) is preceded in the trace by that write, and the cell holds
  UNAVAILABLE whenever the drain has been requested. Every probe answers UNAVAILABLE if
  the write precedes it and OK otherwise; and once the cell holds UNAVAILABLE it holds
  UNAVAILABLE after any continuation of the run.
\<close>

theorem readiness_flips_once_before_drain:
  fixes env :: "'d env"
  shows "readiness (main_bootstrap env) = StatusOK
    \<and> length (filter is_readiness_write (events (main env sched))) \<le> 1
    \<and> (\<forall>e \<in> set (events (main env sched)).
          is_readiness_write e \<longrightarrow> e = SetReadinessStatus StatusServiceUnavailable)
    \<and> (\<forall>pre post. events (main env sched) = pre @ SrvShutdown # post
          \<longrightarrow> SetReadinessStatus StatusServiceUnavailable \<in> set pre)
    \<and> (SrvShutdown \<in> set (events (main env sched))
          \<longrightarrow> readiness (main env sched) = StatusServiceUnavailable)
    \<and> (\<forall>pre v post. events (main env sched) = pre @ ReadinessProbe v # post
          \<longrightarrow> v = (if SetReadinessStatus StatusServiceUnavailable \<in> set pre
                   then StatusServiceUnavailable else StatusOK))
    \<and> (readiness (main env sched) = StatusServiceUnavailable
          \<longrightarrow> readiness (main env (sched @ later)) = StatusServiceUnavailable)"
proof -
  let ?s = "main env sched"
  note inv = readiness_inv_main [of env sched]
  have init: "readiness (main_bootstrap env) = StatusOK"
    using bootstrap_quiet [of env] by simp
  have once: "length (filter is_readiness_write (events ?s)) \<le> 1"
    using inv by (auto simp: readiness_inv_def split: if_splits)
  have w: "\<forall>e \<in> set (events ?s).
             is_readiness_write e \<longrightarrow> e = SetReadinessStatus StatusServiceUnavailable"
    using readiness_inv_writes [OF inv] by blast
  have order: "\<forall>pre post. events ?s = pre @ SrvShutdown # post
          \<longrightarrow> SetReadinessStatus StatusServiceUnavailable \<in> set pre"
    using inv by (simp add: readiness_inv_def drain_after_flip_def)
  have drained: "SrvShutdown \<in> set (events ?s) \<longrightarrow> readiness ?s = StatusServiceUnavailable"
  proof
    assume "SrvShutdown \<in> set (events ?s)"
    with inv have "flipped (gpc ?s)"
      by (auto simp: readiness_inv_def split: if_splits)
    with readiness_inv_value [OF inv] show "readiness ?s = StatusServiceUnavailable" by simp
  qed
  have reads: "\<forall>pre v post. events ?s = pre @ ReadinessProbe v # post
          \<longrightarrow> v = (if SetReadinessStatus StatusServiceUnavailable \<in> set pre
                   then StatusServiceUnavailable else StatusOK)"
  proof (intro allI impI)
    fix pre v post
    assume split: "events ?s = pre @ ReadinessProbe v # post"
    with inv have v: "v = readiness_after pre"
      by (simp add: readiness_inv_def probes_read_cell_def)
    have "\<forall>e \<in> set pre.
            is_readiness_write e \<longrightarrow> e = SetReadinessStatus StatusServiceUnavailable"
      using w split by simp
    from readiness_after_single_value [OF this] v
    show "v = (if SetReadinessStatus StatusServiceUnavailable \<in> set pre
               then StatusServiceUnavailable else StatusOK)"
      by simp
  qed
  have stays: "readiness ?s = StatusServiceUnavailable
          \<longrightarrow> readiness (main env (sched @ later)) = StatusServiceUnavailable"
  proof
    assume "readiness ?s = StatusServiceUnavailable"
    have "flipped (gpc ?s)"
    proof (rule ccontr)
      assume "\<not> flipped (gpc ?s)"
      with readiness_inv_value [OF inv] have "readiness ?s = StatusOK" by simp
      with \<open>readiness ?s = StatusServiceUnavailable\<close> show False
        by (simp add: StatusServiceUnavailable_def StatusOK_def)
    qed
    then have "flipped (gpc (exec env ?s later))" by (rule flipped_exec)
    then have "flipped (gpc (main env (sched @ later)))"
      by (simp add: main_def exec_append)
    with readiness_inv_value [OF readiness_inv_main [of env "sched @ later"]]
    show "readiness (main env (sched @ later)) = StatusServiceUnavailable" by simp
  qed
  show ?thesis
    by (intro conjI init once w order drained reads stays)
qed

theorem readiness_flips_once_before_drain_witness:
  "events (main example_env
     [MainStep, MainStep, MainStep, Probe, Deliver SIGTERM,
      CoordStep, CoordStep, CoordStep, Probe, CoordStep, CoordStep])
   = boot_events example_env
     @ [LogInfo ''starting http service...'', LogInfo ''listening on %s'',
        ListenAndServe ''localhost:5000'', ReadinessProbe StatusOK,
        LogInfo ''captured %v, exiting...'']
     @ SetReadinessStatus StatusServiceUnavailable
     # [ReadinessProbe StatusServiceUnavailable, LogInfo ''gracefully shutdown server'']
     @ SrvShutdown # []
   \<and> readiness (main example_env
       [MainStep, MainStep, MainStep, Probe, Deliver SIGTERM,
        CoordStep, CoordStep, CoordStep, Probe, CoordStep, CoordStep])
     = StatusServiceUnavailable
   \<and> readiness (main example_env
       ([MainStep, MainStep, MainStep, Probe, Deliver SIGTERM,
         CoordStep, CoordStep, CoordStep, Probe, CoordStep, CoordStep]
        @ [CoordStep, MainStep, Probe]))
     = StatusServiceUnavailable"
proof -
  let ?sched = "[MainStep, MainStep, MainStep, Probe, Deliver SIGTERM,
      CoordStep, CoordStep, CoordStep, Probe, CoordStep, CoordStep]"
  have run: "main example_env ?sched =
     \<lparr> events = boot_events example_env
         @ [LogInfo ''starting http service...'', LogInfo ''listening on %s'',
            ListenAndServe ''localhost:5000'', ReadinessProbe StatusOK,
            LogInfo ''captured %v, exiting...'',
            SetReadinessStatus StatusServiceUnavailable,
            ReadinessProbe StatusServiceUnavailable, LogInfo ''gracefully shutdown server'',
            SrvShutdown],
       status = Running, readiness = StatusServiceUnavailable,
       ignored = [SIGHUP, SIGPIPE], notified = [SIGINT, SIGTERM], sigquit = [],
       mpc = Listening, gpc = Draining \<rparr>"
    by (simp add: main_def bootstrap_ok [OF example_env_ok] step_def main_step_def
        coord_step_def deliver_def probe_def emit_def health_SetReadinessStatus_def
        listener_started_def)
       (simp add: example_env_def example_flags_def)
  have drained: "SrvShutdown \<in> set (events (main example_env ?sched))"
    by (simp add: run)
  from readiness_flips_once_before_drain [of example_env ?sched "[CoordStep, MainStep, Probe]"]
  have a: "SrvShutdown \<in> set (events (main example_env ?sched))
             \<longrightarrow> readiness (main example_env ?sched) = StatusServiceUnavailable"
    and b: "readiness (main example_env ?sched) = StatusServiceUnavailable
             \<longrightarrow> readiness (main example_env (?sched @ [CoordStep, MainStep, Probe]))
                   = StatusServiceUnavailable"
    by blast+
  from a drained have r: "readiness (main example_env ?sched) = StatusServiceUnavailable"
    by blast
  with b have "readiness (main example_env (?sched @ [CoordStep, MainStep, Probe]))
                 = StatusServiceUnavailable"
    by blast
  with r show ?thesis
    by (simp add: run)
qed


section \<open>Lemmas about the listener's error\<close>

lemma bootstrap_state:
  "(mpc (main_bootstrap env) = Bootstrapping \<or> mpc (main_bootstrap env) = AtLogStarting)
   \<and> (gpc (main_bootstrap env) = NotSpawned \<or> gpc (main_bootstrap env) = Armed)
   \<and> sigquit (main_bootstrap env) = []
   \<and> (\<forall>k. status (main_bootstrap env) \<noteq> Killed k)
   \<and> (\<forall>m x. LogError m x \<notin> set (events (main_bootstrap env)))
   \<and> (status (main_bootstrap env) \<noteq> Running \<longrightarrow> gpc (main_bootstrap env) = NotSpawned)"
proof -
  consider
    (flags) "parse_result env \<noteq> None \<or> Version (env_flags env)"
    | (ok) "parse_result env = None" "\<not> Version (env_flags env)" "init_error env = None"
    | (failed) e' where "parse_result env = None" "\<not> Version (env_flags env)"
        "init_error env = Some e'"
    using booted_cases [of env] by blast
  then show ?thesis
  proof cases
    case flags
    then show ?thesis
      by (auto simp add: main_bootstrap_def parseFlags_def Let_def
          emit_def init_proc_def os_Exit_def split: option.splits parse_error.splits)
  next
    case ok
    show ?thesis
      by (simp add: bootstrap_ok [OF ok] boot_events_def)
  next
    case failed
    note flags = failed(1,2)
    consider
      (new) "new_result env = Some e'"
      | (connect) "new_result env = None" "connect_result env = Some e'"
      | (migrate) "new_result env = None" "connect_result env = None"
          "fst (db_Migrate (db_clock env) (db_store env) (article_migrations env)) = Some e'"
      using init_error_SomeD [OF failed(3)] by auto
    then show ?thesis
    proof cases
      case new
      show ?thesis by (simp add: bootstrap_new_fails [OF flags new])
    next
      case connect
      show ?thesis by (simp add: bootstrap_connect_fails [OF flags connect])
    next
      case migrate
      show ?thesis by (simp add: bootstrap_migrate_fails [OF flags migrate])
    qed
  qed
qed

lemma server_inv_step: "server_inv env s \<Longrightarrow> server_inv env (step env a s)"
proof (cases "status s = Running")
  case False
  assume "server_inv env s"
  with False show ?thesis by (simp add: step_not_running)
next
  case True
  assume inv: "server_inv env s"
  show ?thesis
  proof (cases a)
    case MainStep
    with True inv show ?thesis
      by (cases "mpc s")
         (auto simp: server_inv_def step_def main_step_def emit_def os_Exit_def
               split: option.splits)
  next
    case CoordStep
    with True inv show ?thesis
      by (cases "gpc s")
         (auto simp: server_inv_def step_def coord_step_def emit_def
               health_SetReadinessStatus_def split: option.splits list.splits)
  next
    case (Deliver sg)
    with True inv show ?thesis
      by (auto simp: server_inv_def step_def deliver_def)
  next
    case Probe
    with True inv show ?thesis
      by (auto simp: server_inv_def step_def probe_def emit_def)
  qed
qed

lemma server_inv_main: "server_inv env (main env sched)"
  unfolding main_def
proof (rule exec_invariant)
  show "server_inv env (main_bootstrap env)"
    using bootstrap_state [of env] by (auto simp: server_inv_def)
qed (rule server_inv_step)

section \<open>Lemmas about signals\<close>

lemma signal_inv_step: "signal_inv s \<Longrightarrow> signal_inv (step env a s)"
proof (cases "status s = Running")
  case False
  assume "signal_inv s"
  with False show ?thesis by (simp add: step_not_running)
next
  case True
  assume inv: "signal_inv s"
  show ?thesis
  proof (cases a)
    case MainStep
    with True inv show ?thesis
      by (cases "mpc s")
         (auto simp: signal_inv_def step_def main_step_def emit_def os_Exit_def
               split: option.splits)
  next
    case CoordStep
    with True inv show ?thesis
      by (cases "gpc s")
         (auto simp: signal_inv_def step_def coord_step_def emit_def
               health_SetReadinessStatus_def split: option.splits list.splits)
  next
    case (Deliver sg)
    with True inv show ?thesis
      by (cases sg) (auto simp: signal_inv_def step_def deliver_def)
  next
    case Probe
    with True inv show ?thesis
      by (auto simp: signal_inv_def step_def probe_def emit_def)
  qed
qed

lemma signal_inv_main:
  assumes ok: "parse_result env = None" "\<not> Version (env_flags env)" "init_error env = None"
  shows "signal_inv (main env sched)"
  unfolding main_def
proof (rule exec_invariant)
  show "signal_inv (main_bootstrap env)"
    by (simp add: bootstrap_ok [OF ok] signal_inv_def)
qed (rule signal_inv_step)

lemma waiting_step:
  assumes "signal_inv s" "waiting s" "a \<noteq> Deliver SIGINT" "a \<noteq> Deliver SIGTERM"
  shows "waiting (step env a s)"
proof (cases "status s = Running")
  case False
  with assms show ?thesis by (simp add: step_not_running)
next
  case True
  show ?thesis
  proof (cases a)
    case MainStep
    with True assms show ?thesis
      by (cases "mpc s")
         (auto simp: waiting_def step_def main_step_def emit_def os_Exit_def
               split: option.splits)
  next
    case CoordStep
    with True assms show ?thesis
      by (auto simp: waiting_def step_def coord_step_def)
  next
    case (Deliver sg)
    with True assms show ?thesis
      by (cases sg) (auto simp: waiting_def signal_inv_def step_def deliver_def)
  next
    case Probe
    with True assms show ?thesis
      by (auto simp: waiting_def step_def probe_def emit_def)
  qed
qed

lemma waiting_exec:
  assumes "signal_inv s" "waiting s"
    "\<forall>a \<in> set sched. a \<noteq> Deliver SIGINT \<and> a \<noteq> Deliver SIGTERM"
  shows "waiting (exec env s sched)"
  using assms
proof (induction sched arbitrary: s)
  case Nil
  then show ?case by simp
next
  case (Cons a sched)
  from Cons.prems have "signal_inv (step env a s)" "waiting (step env a s)"
    by (simp_all add: signal_inv_step waiting_step)
  with Cons show ?case by simp
qed

section \<open>Claim about signals\<close>

text \<open>
  C7. After a bootstrap that went through, in every state of every run SIGHUP and
  SIGPIPE are ignored and SIGINT and SIGTERM are relayed to the channel. When the
  goroutine waits on an empty channel, a SIGINT or SIGTERM followed by a step of the
  goroutine takes it from \<open>Armed\<close> to \<open>Triggered\<close> with that signal, and a triggered
  goroutine was triggered by one of these two. A SIGHUP or a SIGPIPE leaves the whole
  state as it is. In a run that receives no SIGINT and no SIGTERM, whatever else
  happens, the goroutine stays \<open>Armed\<close>, readiness stays OK and no drain is ever
  requested. No signal kills the process.
\<close>

theorem termination_signals_trigger_benign_ignored:
  fixes env :: "'d env"
  assumes ok: "parse_result env = None" "\<not> Version (env_flags env)" "init_error env = None"
  shows "ignored (main env sched) = [SIGHUP, SIGPIPE]
    \<and> notified (main env sched) = [SIGINT, SIGTERM]
    \<and> ((sg = SIGINT \<or> sg = SIGTERM) \<and> status (main env sched) = Running
          \<and> gpc (main env sched) = Armed \<and> sigquit (main env sched) = []
        \<longrightarrow> gpc (exec env (main env sched) [Deliver sg, CoordStep]) = Triggered sg)
    \<and> (gpc (main env sched) = Triggered sg \<longrightarrow> sg = SIGINT \<or> sg = SIGTERM)
    \<and> (sg = SIGHUP \<or> sg = SIGPIPE
        \<longrightarrow> step env (Deliver sg) (main env sched) = main env sched)
    \<and> ((\<forall>a \<in> set sched. a \<noteq> Deliver SIGINT \<and> a \<noteq> Deliver SIGTERM)
        \<longrightarrow> gpc (main env sched) = Armed
          \<and> sigquit (main env sched) = []
          \<and> readiness (main env sched) = StatusOK
          \<and> SrvShutdown \<notin> set (events (main env sched)))
    \<and> (\<forall>k. status (main env sched) \<noteq> Killed k)"
proof -
  let ?s = "main env sched"
  note inv = signal_inv_main [OF ok, of sched]
  have disp: "ignored ?s = [SIGHUP, SIGPIPE]" "notified ?s = [SIGINT, SIGTERM]"
    using inv by (simp_all add: signal_inv_def)
  have trig: "(sg = SIGINT \<or> sg = SIGTERM) \<and> status ?s = Running
          \<and> gpc ?s = Armed \<and> sigquit ?s = []
        \<longrightarrow> gpc (exec env ?s [Deliver sg, CoordStep]) = Triggered sg"
    using disp by (auto simp: step_def deliver_def coord_step_def)
  have only: "gpc ?s = Triggered sg \<longrightarrow> sg = SIGINT \<or> sg = SIGTERM"
    using inv by (simp add: signal_inv_def)
  have benign: "sg = SIGHUP \<or> sg = SIGPIPE \<longrightarrow> step env (Deliver sg) ?s = ?s"
    using disp by (auto simp: step_def deliver_def)
  have quiet: "(\<forall>a \<in> set sched. a \<noteq> Deliver SIGINT \<and> a \<noteq> Deliver SIGTERM)
        \<longrightarrow> gpc ?s = Armed \<and> sigquit ?s = [] \<and> readiness ?s = StatusOK
          \<and> SrvShutdown \<notin> set (events ?s)"
  proof
    assume none: "\<forall>a \<in> set sched. a \<noteq> Deliver SIGINT \<and> a \<noteq> Deliver SIGTERM"
    have "signal_inv (main_bootstrap env)" "waiting (main_bootstrap env)"
      by (simp_all add: bootstrap_ok [OF ok] signal_inv_def waiting_def)
    from waiting_exec [OF this none] have w: "waiting ?s"
      by (simp add: main_def)
    then have armed: "gpc ?s = Armed" and empty: "sigquit ?s = []"
      by (simp_all add: waiting_def)
    from armed have nf: "\<not> flipped (gpc ?s)" by (simp add: flipped_def)
    note rinv = readiness_inv_main [of env sched]
    from readiness_inv_value [OF rinv] nf have "readiness ?s = StatusOK" by simp
    moreover from rinv nf have "SrvShutdown \<notin> set (events ?s)"
      by (simp add: readiness_inv_def)
    ultimately show "gpc ?s = Armed \<and> sigquit ?s = [] \<and> readiness ?s = StatusOK
          \<and> SrvShutdown \<notin> set (events ?s)"
      using armed empty by simp
  qed
  have alive: "\<forall>k. status ?s \<noteq> Killed k"
    using inv by (simp add: signal_inv_def)
  show ?thesis
    by (intro conjI disp trig only benign quiet alive)
qed

theorem termination_signals_trigger_benign_ignored_witness:
  "gpc (main example_env [MainStep, Deliver SIGHUP, Probe, Deliver SIGPIPE, CoordStep]) = Armed
   \<and> readiness (main example_env [MainStep, Deliver SIGHUP, Probe, Deliver SIGPIPE, CoordStep])
       = StatusOK
   \<and> gpc (exec example_env
            (main example_env [MainStep, Deliver SIGHUP, Probe, Deliver SIGPIPE, CoordStep])
            [Deliver SIGTERM, CoordStep])
       = Triggered SIGTERM
   \<and> status (main example_env [MainStep, Deliver SIGHUP, Probe, Deliver SIGPIPE, CoordStep])
       = Running"
proof -
  let ?sched = "[MainStep, Deliver SIGHUP, Probe, Deliver SIGPIPE, CoordStep]"
  note inst = termination_signals_trigger_benign_ignored [OF example_env_ok, of ?sched SIGTERM]
  have none: "\<forall>a \<in> set ?sched. a \<noteq> Deliver SIGINT \<and> a \<noteq> Deliver SIGTERM"
    by simp
  have run: "status (main example_env ?sched) = Running"
    by (simp add: main_def bootstrap_ok [OF example_env_ok] step_def main_step_def
        coord_step_def deliver_def probe_def emit_def listener_started_def)
  from inst none have q: "gpc (main example_env ?sched) = Armed"
    "sigquit (main example_env ?sched) = []"
    "readiness (main example_env ?sched) = StatusOK"
    by blast+
  from inst q run
  have "gpc (exec example_env (main example_env ?sched) [Deliver SIGTERM, CoordStep])
          = Triggered SIGTERM"
    by blast
  with q run show ?thesis by simp
qed


section \<open>Lemmas about the drain\<close>










lemma exit_inv_step:
  assumes "signal_inv s \<and> exit_inv s"
  shows "signal_inv (step env a s) \<and> exit_inv (step env a s)"
proof
  from assms show "signal_inv (step env a s)" by (simp add: signal_inv_step)
next
  show "exit_inv (step env a s)"
  proof (cases "status s = Running")
    case False
    with assms show ?thesis by (simp add: step_not_running)
  next
    case True
    show ?thesis
    proof (cases a)
      case MainStep
      with True show ?thesis
        by (cases "mpc s")
           (simp_all add: exit_inv_def step_def main_step_def emit_def os_Exit_def
              split: option.splits)
    next
      case CoordStep
      with True show ?thesis
        by (cases "gpc s")
           (simp_all add: exit_inv_def step_def coord_step_def emit_def
              health_SetReadinessStatus_def split: option.splits list.splits)
    next
      case (Deliver sg)
      with True assms show ?thesis
        by (cases sg) (simp_all add: exit_inv_def signal_inv_def step_def deliver_def)
    next
      case Probe
      with True show ?thesis
        by (simp add: exit_inv_def step_def probe_def emit_def)
    qed
  qed
qed

lemma exit_inv_main:
  assumes ok: "parse_result env = None" "\<not> Version (env_flags env)" "init_error env = None"
  shows "exit_inv (main env sched)"
proof -
  have "signal_inv (main env sched) \<and> exit_inv (main env sched)"
    unfolding main_def
  proof (rule exec_invariant)
    show "signal_inv (main_bootstrap env) \<and> exit_inv (main_bootstrap env)"
      by (simp add: bootstrap_ok [OF ok] signal_inv_def exit_inv_def)
  qed (rule exit_inv_step)
  then show ?thesis by simp
qed



section \<open>Claim about the listener's error\<close>

text \<open>
  C10. In every run, the entry \<open>server error\<close> with error \<open>e\<close> is in the trace exactly
  when the main goroutine has passed the check of line 87 and \<^verbatim>\<open>srv.ListenAndServe\<close>
  returned \<open>e\<close>, an error other than \<^verbatim>\<open>http.ErrServerClosed\<close>. When it returned
  \<^verbatim>\<open>http.ErrServerClosed\<close>, or \<^verbatim>\<open>nil\<close>, no server error is ever logged. The step that
  checks the error appends that entry for such an error and nothing otherwise. In a
  run that has ended after a bootstrap that went through, the entry is in the trace
  exactly when \<^verbatim>\<open>srv.ListenAndServe\<close> returned an error other than
  \<^verbatim>\<open>http.ErrServerClosed\<close>.
\<close>

theorem server_error_logged_iff:
  fixes env :: "'d env"
  shows "(LogError ''server error'' e \<in> set (events (main env sched)) \<longleftrightarrow>
            (mpc (main env sched) = Returning \<or> mpc (main env sched) = Exiting)
            \<and> listen_result env = Some e \<and> e \<noteq> ErrServerClosed)
       \<and> (listen_result env = Some ErrServerClosed
            \<longrightarrow> (\<forall>x. LogError ''server error'' x \<notin> set (events (main env sched))))
       \<and> (listen_result env = None
            \<longrightarrow> (\<forall>x. LogError ''server error'' x \<notin> set (events (main env sched))))
       \<and> (mpc (main env sched) = Checking err \<and> status (main env sched) = Running
            \<longrightarrow> err = listen_result env
              \<and> events (step env MainStep (main env sched)) =
                  events (main env sched)
                  @ (case err of
                       None \<Rightarrow> []
                     | Some x \<Rightarrow> if x \<noteq> ErrServerClosed then [LogError ''server error'' x] else []))
       \<and> (parse_result env = None \<and> \<not> Version (env_flags env) \<and> init_error env = None
            \<and> status (main env sched) \<noteq> Running
            \<longrightarrow> (LogError ''server error'' e \<in> set (events (main env sched)) \<longleftrightarrow>
                   listen_result env = Some e \<and> e \<noteq> ErrServerClosed))"
proof -
  note inv = server_inv_main [of env sched]
  have a: "LogError ''server error'' e \<in> set (events (main env sched)) \<longleftrightarrow>
            (mpc (main env sched) = Returning \<or> mpc (main env sched) = Exiting)
            \<and> listen_result env = Some e \<and> e \<noteq> ErrServerClosed"
    using inv by (simp add: server_inv_def)
  have b: "listen_result env = Some ErrServerClosed
            \<longrightarrow> (\<forall>x. LogError ''server error'' x \<notin> set (events (main env sched)))"
    using inv by (auto simp: server_inv_def)
  have c: "listen_result env = None
            \<longrightarrow> (\<forall>x. LogError ''server error'' x \<notin> set (events (main env sched)))"
    using inv by (auto simp: server_inv_def)
  have d: "mpc (main env sched) = Checking err \<and> status (main env sched) = Running
            \<longrightarrow> err = listen_result env
              \<and> events (step env MainStep (main env sched)) =
                  events (main env sched)
                  @ (case err of
                       None \<Rightarrow> []
                     | Some x \<Rightarrow> if x \<noteq> ErrServerClosed then [LogError ''server error'' x] else [])"
    using inv by (auto simp: server_inv_def step_def main_step_def emit_def split: option.splits)
  have f: "parse_result env = None \<and> \<not> Version (env_flags env) \<and> init_error env = None
            \<and> status (main env sched) \<noteq> Running
            \<longrightarrow> (LogError ''server error'' e \<in> set (events (main env sched)) \<longleftrightarrow>
                   listen_result env = Some e \<and> e \<noteq> ErrServerClosed)"
  proof
    assume h: "parse_result env = None \<and> \<not> Version (env_flags env) \<and> init_error env = None
            \<and> status (main env sched) \<noteq> Running"
    then have "exit_inv (main env sched)" by (intro exit_inv_main) simp_all
    with h have "mpc (main env sched) = Exiting" by (simp add: exit_inv_def)
    with a show "LogError ''server error'' e \<in> set (events (main env sched)) \<longleftrightarrow>
                   listen_result env = Some e \<and> e \<noteq> ErrServerClosed"
      by simp
  qed
  show ?thesis
    by (intro conjI a b c d f)
qed

theorem server_error_logged_iff_witness:
  "LogError ''server error'' (OtherError ''bind: address already in use'')
     \<in> set (events (main (example_env\<lparr> listen_result := Some (OtherError ''bind: address already in use'') \<rparr>)
                     [MainStep, MainStep, MainStep, MainStep, MainStep]))
   \<and> (\<forall>x. LogError ''server error'' x
          \<notin> set (events (main example_env [MainStep, MainStep, MainStep, MainStep, MainStep])))
   \<and> mpc (main example_env [MainStep, MainStep, MainStep, MainStep, MainStep]) = Returning"
proof -
  let ?sched = "[MainStep, MainStep, MainStep, MainStep, MainStep]"
  let ?err = "OtherError ''bind: address already in use''"
  let ?bad = "example_env\<lparr> listen_result := Some ?err \<rparr>"
  have bad_ok: "parse_result ?bad = None" "\<not> Version (env_flags ?bad)" "init_error ?bad = None"
    by (simp_all add: init_error_cases example_env_def example_flags_def db_Migrate_def
        migrate_def ledger_ids_def)
  have m1: "mpc (main ?bad ?sched) = Returning"
    by (simp add: main_def bootstrap_ok [OF bad_ok] step_def main_step_def emit_def)
  have m2: "mpc (main example_env ?sched) = Returning"
    by (simp add: main_def bootstrap_ok [OF example_env_ok] step_def main_step_def emit_def)
       (simp add: example_env_def)
  have l1: "listen_result ?bad = Some ?err" "?err \<noteq> ErrServerClosed" by simp_all
  have l2: "listen_result example_env = Some ErrServerClosed" by (simp add: example_env_def)
  from server_error_logged_iff [of ?err ?bad ?sched None] m1 l1
  have "LogError ''server error'' ?err \<in> set (events (main ?bad ?sched))" by blast
  moreover
  from server_error_logged_iff [of ErrServerClosed example_env ?sched None] l2
  have "\<forall>x. LogError ''server error'' x \<notin> set (events (main example_env ?sched))" by blast
  ultimately show ?thesis using m2 by simp
qed


section \<open>Claim about a failed drain\<close>





section \<open>Lemmas about the pipeline\<close>

lemma hops_simps:
  "hops [] = []"
  "hops (Entered h r # tr) = h # hops tr"
  "hops (CorsDecision g # tr) = hops tr"
  "hops (Recovered m # tr) = hops tr"
  "hops (LogEntry r c # tr) = hops tr"
  by (simp_all add: hops_def List.map_filter_def)

lemma hops_append: "hops (xs @ ys) = hops xs @ hops ys"
  by (simp add: hops_def List.map_filter_def)

lemma hops_router: "hops (trace (router routes r)) = [Router]"
  by (simp add: router_def hops_simps)

lemma chain_Cons: "chain impl (st # stages) endpoint = apply_stage impl st (chain impl stages endpoint)"
  by (simp add: chain_def)

lemma chain_Nil: "chain impl [] endpoint = endpoint"
  by (simp add: chain_def)

lemma hops_apply_stage:
  assumes "\<And>r'. prefix (hops (trace (next r'))) rest"
  shows "prefix (hops (trace (apply_stage impl st next r))) (Stage st # rest)"
proof (cases st)
  case RequestID
  with assms [of "assign_id impl r"] show ?thesis by (simp add: Let_def hops_simps)
next
  case RealIP
  with assms [of "real_ip impl r"] show ?thesis by (simp add: Let_def hops_simps)
next
  case RequestLogger
  with assms [of r] show ?thesis
    by (cases "outcome (next r)") (simp_all add: Let_def hops_simps hops_append)
next
  case Recoverer
  with assms [of r] show ?thesis
    by (cases "outcome (next r)") (simp_all add: Let_def hops_simps hops_append)
next
  case (CorsHandler opts)
  with assms [of r] show ?thesis by (simp add: Let_def hops_simps)
qed

lemma hops_chain_prefix:
  "prefix (hops (trace (chain impl stages (router routes) r))) (map Stage stages @ [Router])"
proof (induction stages arbitrary: r)
  case Nil
  show ?case by (simp add: chain_Nil hops_router)
next
  case (Cons st stages)
  have "prefix (hops (trace (apply_stage impl st (chain impl stages (router routes)) r)))
          (Stage st # (map Stage stages @ [Router]))"
    by (rule hops_apply_stage) (rule Cons.IH)
  then show ?case by (simp add: chain_Cons)
qed

lemma main_handler_recovered:
  fixes impl cfg routes r
  defines "r2 \<equiv> real_ip impl (assign_id impl r)"
  defines "opts \<equiv> main_cors_options cfg"
  assumes pf: "\<not> is_preflight impl r2" and out: "routes r2 = Panic msg"
  shows "main_handler impl cfg routes r =
     \<lparr> trace = [Entered (Stage RequestID) r,
                Entered (Stage RealIP) (assign_id impl r),
                Entered (Stage RequestLogger) r2,
                Entered (Stage Recoverer) r2,
                Entered (Stage (CorsHandler opts)) r2,
                CorsDecision (cors_permits impl opts r2),
                Entered Router r2,
                Recovered msg,
                LogEntry r2 StatusInternalServerError],
       outcome = Responded StatusInternalServerError \<rparr>"
  using pf out
  by (simp add: main_handler_def main_middlewares_def chain_def router_def Let_def
      r2_def opts_def)

lemma main_handler_responded:
  fixes impl cfg routes r
  defines "r2 \<equiv> real_ip impl (assign_id impl r)"
  defines "opts \<equiv> main_cors_options cfg"
  assumes pf: "\<not> is_preflight impl r2" and out: "routes r2 = Responded code"
  shows "main_handler impl cfg routes r =
     \<lparr> trace = [Entered (Stage RequestID) r,
                Entered (Stage RealIP) (assign_id impl r),
                Entered (Stage RequestLogger) r2,
                Entered (Stage Recoverer) r2,
                Entered (Stage (CorsHandler opts)) r2,
                CorsDecision (cors_permits impl opts r2),
                Entered Router r2,
                LogEntry r2 code],
       outcome = Responded code \<rparr>"
  using pf out
  by (simp add: main_handler_def main_middlewares_def chain_def router_def Let_def
      r2_def opts_def)

lemma main_handler_preflight:
  fixes impl cfg routes r
  defines "r2 \<equiv> real_ip impl (assign_id impl r)"
  defines "opts \<equiv> main_cors_options cfg"
  assumes pf: "is_preflight impl r2"
  shows "main_handler impl cfg routes r =
     \<lparr> trace = [Entered (Stage RequestID) r,
                Entered (Stage RealIP) (assign_id impl r),
                Entered (Stage RequestLogger) r2,
                Entered (Stage Recoverer) r2,
                Entered (Stage (CorsHandler opts)) r2,
                CorsDecision (cors_permits impl opts r2),
                LogEntry r2 (preflight_status impl)],
       outcome = Responded (preflight_status impl) \<rparr>"
  using pf
  by (simp add: main_handler_def main_middlewares_def chain_def router_def Let_def
      r2_def opts_def)

lemma main_handler_cases:
  obtains (preflight) "is_preflight impl (real_ip impl (assign_id impl r))"
    | (responded) code where "\<not> is_preflight impl (real_ip impl (assign_id impl r))"
        "routes (real_ip impl (assign_id impl r)) = Responded code"
    | (panic) msg where "\<not> is_preflight impl (real_ip impl (assign_id impl r))"
        "routes (real_ip impl (assign_id impl r)) = Panic msg"
  by (cases "is_preflight impl (real_ip impl (assign_id impl r))";
      cases "routes (real_ip impl (assign_id impl r))") auto

section \<open>Claims about the pipeline\<close>

text \<open>
  C3. For every request the composed handler enters the stages in the order in which
  \<^verbatim>\<open>main\<close> inserted them: request id, client address, logger, recoverer, cross-origin
  policy, and then the router, which is reached unless the cross-origin stage answers
  the request itself. The first three entries of the trace are the request-id stage on
  the request as received, the client-address stage on the request with its id
  assigned, and the logger on the request with id assigned and address normalised. For
  any list of stages the stages entered are a prefix of the list as inserted, followed
  by the router.
\<close>

theorem pipeline_order:
  "hops (trace (main_handler impl cfg routes r))
     = [Stage RequestID, Stage RealIP, Stage RequestLogger, Stage Recoverer,
        Stage (CorsHandler (main_cors_options cfg))]
       @ (if is_preflight impl (real_ip impl (assign_id impl r)) then [] else [Router])
   \<and> map Stage (main_middlewares cfg)
     = [Stage RequestID, Stage RealIP, Stage RequestLogger, Stage Recoverer,
        Stage (CorsHandler (main_cors_options cfg))]
   \<and> take 3 (trace (main_handler impl cfg routes r))
     = [Entered (Stage RequestID) r,
        Entered (Stage RealIP) (assign_id impl r),
        Entered (Stage RequestLogger) (real_ip impl (assign_id impl r))]
   \<and> prefix (hops (trace (chain impl stages (router routes) r)))
        (map Stage stages @ [Router])"
proof -
  have both: "hops (trace (main_handler impl cfg routes r))
     = [Stage RequestID, Stage RealIP, Stage RequestLogger, Stage Recoverer,
        Stage (CorsHandler (main_cors_options cfg))]
       @ (if is_preflight impl (real_ip impl (assign_id impl r)) then [] else [Router])
     \<and> take 3 (trace (main_handler impl cfg routes r))
     = [Entered (Stage RequestID) r,
        Entered (Stage RealIP) (assign_id impl r),
        Entered (Stage RequestLogger) (real_ip impl (assign_id impl r))]"
  proof (cases rule: main_handler_cases [where impl = impl and r = r and routes = routes])
    case preflight
    from main_handler_preflight [where impl = impl and cfg = cfg and routes = routes and r = r, OF preflight]
      preflight
    show ?thesis by (simp add: hops_simps)
  next
    case (responded code)
    from main_handler_responded [where impl = impl and cfg = cfg and routes = routes and r = r, OF responded]
      responded
    show ?thesis by (simp add: hops_simps)
  next
    case (panic msg)
    from main_handler_recovered [where impl = impl and cfg = cfg and routes = routes and r = r, OF panic]
      panic
    show ?thesis by (simp add: hops_simps)
  qed
  then have order: "hops (trace (main_handler impl cfg routes r))
     = [Stage RequestID, Stage RealIP, Stage RequestLogger, Stage Recoverer,
        Stage (CorsHandler (main_cors_options cfg))]
       @ (if is_preflight impl (real_ip impl (assign_id impl r)) then [] else [Router])"
    and first: "take 3 (trace (main_handler impl cfg routes r))
     = [Entered (Stage RequestID) r,
        Entered (Stage RealIP) (assign_id impl r),
        Entered (Stage RequestLogger) (real_ip impl (assign_id impl r))]"
    by simp_all
  have inserted: "map Stage (main_middlewares cfg)
     = [Stage RequestID, Stage RealIP, Stage RequestLogger, Stage Recoverer,
        Stage (CorsHandler (main_cors_options cfg))]"
    by (simp add: main_middlewares_def)
  show ?thesis
    by (intro conjI order inserted first hops_chain_prefix)
qed

theorem pipeline_order_witness:
  "hops (trace (main_handler example_impl example_flags (\<lambda>r. Responded 201) example_request))
     = [Stage RequestID, Stage RealIP, Stage RequestLogger, Stage Recoverer,
        Stage (CorsHandler (main_cors_options example_flags)), Router]
   \<and> hops (trace (main_handler example_impl example_flags (\<lambda>r. Responded 201)
                     (example_request\<lparr> req_method := ''OPTIONS'' \<rparr>)))
     = [Stage RequestID, Stage RealIP, Stage RequestLogger, Stage Recoverer,
        Stage (CorsHandler (main_cors_options example_flags))]"
proof -
  have a: "\<not> is_preflight example_impl
              (real_ip example_impl (assign_id example_impl example_request))"
    by (simp add: example_impl_def example_request_def)
  have b: "is_preflight example_impl
              (real_ip example_impl (assign_id example_impl
                 (example_request\<lparr> req_method := ''OPTIONS'' \<rparr>)))"
    by (simp add: example_impl_def example_request_def)
  from pipeline_order [of example_impl example_flags "\<lambda>r. Responded 201" example_request "[]"]
       pipeline_order [of example_impl example_flags "\<lambda>r. Responded 201"
                          "example_request\<lparr> req_method := ''OPTIONS'' \<rparr>" "[]"]
       a b
  show ?thesis by simp
qed

text \<open>
  C4. With the stages in the order of \<^verbatim>\<open>main\<close>, no request makes the composed handler
  panic, and the logger records an entry for every request. For a request that
  reaches a route handler that panics, the recoverer catches the panic, the composed
  handler answers with status 500, and the entry the logger records for the request
  carries status 500.
\<close>

theorem panic_recovered_and_logged:
  "(\<forall>m. outcome (main_handler impl cfg routes r) \<noteq> Panic m)
   \<and> (\<exists>code. outcome (main_handler impl cfg routes r) = Responded code
         \<and> LogEntry (real_ip impl (assign_id impl r)) code
             \<in> set (trace (main_handler impl cfg routes r)))
   \<and> (\<not> is_preflight impl (real_ip impl (assign_id impl r))
       \<and> routes (real_ip impl (assign_id impl r)) = Panic msg
       \<longrightarrow> outcome (main_handler impl cfg routes r) = Responded StatusInternalServerError
         \<and> Recovered msg \<in> set (trace (main_handler impl cfg routes r))
         \<and> LogEntry (real_ip impl (assign_id impl r)) StatusInternalServerError
             \<in> set (trace (main_handler impl cfg routes r))
         \<and> last (trace (main_handler impl cfg routes r))
             = LogEntry (real_ip impl (assign_id impl r)) StatusInternalServerError)"
proof -
  have all: "(\<forall>m. outcome (main_handler impl cfg routes r) \<noteq> Panic m)
   \<and> (\<exists>code. outcome (main_handler impl cfg routes r) = Responded code
         \<and> LogEntry (real_ip impl (assign_id impl r)) code
             \<in> set (trace (main_handler impl cfg routes r)))"
  proof (cases rule: main_handler_cases [where impl = impl and r = r and routes = routes])
    case preflight
    from main_handler_preflight [where impl = impl and cfg = cfg and routes = routes and r = r, OF preflight] show ?thesis by simp
  next
    case (responded code)
    from main_handler_responded [where impl = impl and cfg = cfg and routes = routes and r = r, OF responded] show ?thesis by simp
  next
    case (panic m)
    from main_handler_recovered [where impl = impl and cfg = cfg and routes = routes and r = r, OF panic] show ?thesis by simp
  qed
  have rec: "\<not> is_preflight impl (real_ip impl (assign_id impl r))
       \<and> routes (real_ip impl (assign_id impl r)) = Panic msg
       \<longrightarrow> outcome (main_handler impl cfg routes r) = Responded StatusInternalServerError
         \<and> Recovered msg \<in> set (trace (main_handler impl cfg routes r))
         \<and> LogEntry (real_ip impl (assign_id impl r)) StatusInternalServerError
             \<in> set (trace (main_handler impl cfg routes r))
         \<and> last (trace (main_handler impl cfg routes r))
             = LogEntry (real_ip impl (assign_id impl r)) StatusInternalServerError"
  proof
    assume "\<not> is_preflight impl (real_ip impl (assign_id impl r))
       \<and> routes (real_ip impl (assign_id impl r)) = Panic msg"
    then have p: "\<not> is_preflight impl (real_ip impl (assign_id impl r))"
      "routes (real_ip impl (assign_id impl r)) = Panic msg" by simp_all
    from main_handler_recovered [where impl = impl and cfg = cfg and routes = routes and r = r, OF p]
    show "outcome (main_handler impl cfg routes r) = Responded StatusInternalServerError
         \<and> Recovered msg \<in> set (trace (main_handler impl cfg routes r))
         \<and> LogEntry (real_ip impl (assign_id impl r)) StatusInternalServerError
             \<in> set (trace (main_handler impl cfg routes r))
         \<and> last (trace (main_handler impl cfg routes r))
             = LogEntry (real_ip impl (assign_id impl r)) StatusInternalServerError"
      by simp
  qed
  from all rec show ?thesis by (intro conjI) simp_all
qed

theorem panic_recovered_and_logged_witness:
  "outcome (main_handler example_impl example_flags (\<lambda>r. Panic ''nil map'') example_request)
     = Responded 500
   \<and> LogEntry (example_request\<lparr> req_id := Some ''host/1-000001'',
                                  req_remote_addr := ''203.0.113.7'' \<rparr>) 500
       \<in> set (trace (main_handler example_impl example_flags (\<lambda>r. Panic ''nil map'')
                        example_request))"
proof -
  have a: "\<not> is_preflight example_impl
              (real_ip example_impl (assign_id example_impl example_request))
           \<and> (\<lambda>r. Panic ''nil map'')
               (real_ip example_impl (assign_id example_impl example_request))
             = Panic ''nil map''"
    by (simp add: example_impl_def example_request_def)
  have r2: "real_ip example_impl (assign_id example_impl example_request)
              = example_request\<lparr> req_id := Some ''host/1-000001'',
                                  req_remote_addr := ''203.0.113.7'' \<rparr>"
    by (simp add: example_impl_def)
  from panic_recovered_and_logged
         [of example_impl example_flags "\<lambda>r. Panic ''nil map''" example_request "''nil map''"] a
  have "outcome (main_handler example_impl example_flags (\<lambda>r. Panic ''nil map'')
                   example_request) = Responded StatusInternalServerError
        \<and> LogEntry (real_ip example_impl (assign_id example_impl example_request))
             StatusInternalServerError
             \<in> set (trace (main_handler example_impl example_flags (\<lambda>r. Panic ''nil map'')
                        example_request))"
    by blast
  then show ?thesis
    by (simp add: r2 StatusInternalServerError_def)
qed

text \<open>
  C9. Whatever the configuration, the options \<^verbatim>\<open>main\<close> gives to the cross-origin
  stage allow exactly the methods GET, PUT and DELETE and set AllowCredentials, while
  the allowed origins, allowed headers and exposed headers are the configured ones.
  So POST is not an allowed method, and for every configuration, every request and
  every origin and header policy the cross-origin stage does not permit a request
  whose method is POST: its decision in the trace of the composed handler is a
  refusal.
\<close>

theorem cors_methods_fixed:
  "opt_AllowedMethods (main_cors_options cfg) = [''GET'', ''PUT'', ''DELETE'']
   \<and> set (opt_AllowedMethods (main_cors_options cfg)) = {MethodGet, MethodPut, MethodDelete}
   \<and> opt_AllowedMethods (main_cors_options cfg) = opt_AllowedMethods (main_cors_options cfg')
   \<and> opt_AllowCredentials (main_cors_options cfg)
   \<and> opt_AllowedOrigins (main_cors_options cfg) = AllowedOrigins (HTTP cfg)
   \<and> opt_AllowedHeaders (main_cors_options cfg) = AllowedHeaders (HTTP cfg)
   \<and> opt_ExposedHeaders (main_cors_options cfg) = ExposedHeaders (HTTP cfg)
   \<and> \<not> isMethodAllowed (main_cors_options cfg) MethodPost
   \<and> (cors_method impl r = MethodPost \<longrightarrow> \<not> cors_permits impl (main_cors_options cfg) r)
   \<and> (cors_method impl (real_ip impl (assign_id impl r)) = MethodPost
       \<longrightarrow> CorsDecision False \<in> set (trace (main_handler impl cfg routes r))
         \<and> CorsDecision True \<notin> set (trace (main_handler impl cfg routes r)))"
proof -
  have post: "\<not> isMethodAllowed (main_cors_options cfg) MethodPost"
    by (simp add: isMethodAllowed_def main_cors_options_def MethodPost_def MethodGet_def
        MethodPut_def MethodDelete_def)
  have deny: "cors_method impl r = MethodPost \<longrightarrow> \<not> cors_permits impl (main_cors_options cfg) r"
    for r
    using post by (simp add: cors_permits_def)
  have dec: "cors_method impl (real_ip impl (assign_id impl r)) = MethodPost
       \<longrightarrow> CorsDecision False \<in> set (trace (main_handler impl cfg routes r))
         \<and> CorsDecision True \<notin> set (trace (main_handler impl cfg routes r))"
  proof
    assume "cors_method impl (real_ip impl (assign_id impl r)) = MethodPost"
    with deny have no: "\<not> cors_permits impl (main_cors_options cfg)
                           (real_ip impl (assign_id impl r))"
      by simp
    show "CorsDecision False \<in> set (trace (main_handler impl cfg routes r))
         \<and> CorsDecision True \<notin> set (trace (main_handler impl cfg routes r))"
    proof (cases rule: main_handler_cases [where impl = impl and r = r and routes = routes])
      case preflight
      from main_handler_preflight [where impl = impl and cfg = cfg and routes = routes and r = r, OF preflight] no show ?thesis by simp
    next
      case (responded code)
      from main_handler_responded [where impl = impl and cfg = cfg and routes = routes and r = r, OF responded] no show ?thesis by simp
    next
      case (panic m)
      from main_handler_recovered [where impl = impl and cfg = cfg and routes = routes and r = r, OF panic] no show ?thesis by simp
    qed
  qed
  have opts: "opt_AllowedMethods (main_cors_options cfg) = [''GET'', ''PUT'', ''DELETE'']"
    "set (opt_AllowedMethods (main_cors_options cfg)) = {MethodGet, MethodPut, MethodDelete}"
    "opt_AllowedMethods (main_cors_options cfg) = opt_AllowedMethods (main_cors_options cfg')"
    "opt_AllowCredentials (main_cors_options cfg)"
    "opt_AllowedOrigins (main_cors_options cfg) = AllowedOrigins (HTTP cfg)"
    "opt_AllowedHeaders (main_cors_options cfg) = AllowedHeaders (HTTP cfg)"
    "opt_ExposedHeaders (main_cors_options cfg) = ExposedHeaders (HTTP cfg)"
    by (simp_all add: main_cors_options_def MethodGet_def MethodPut_def MethodDelete_def)
  show ?thesis
    by (intro conjI opts post deny dec)
qed

theorem cors_methods_fixed_witness:
  "cors_method example_impl example_request = MethodPost
   \<and> \<not> cors_permits example_impl (main_cors_options example_flags) example_request
   \<and> CorsDecision False
       \<in> set (trace (main_handler example_impl example_flags (\<lambda>r. Responded 201)
                        example_request))"
proof -
  have m: "cors_method example_impl example_request = MethodPost"
    "cors_method example_impl (real_ip example_impl (assign_id example_impl example_request))
       = MethodPost"
    by (simp_all add: cors_method_def example_impl_def example_request_def MethodPost_def)
  from cors_methods_fixed
         [of example_flags example_flags example_impl example_request "\<lambda>r. Responded 201"] m
  show ?thesis by blast
qed

end
